theory Spec2Isabelle
  imports Main "HOL-Library.Word"
begin

section \<open>Basic types of the runtime\<close>

text \<open>
  \<^verbatim>\<open>size_t\<close> and \<^verbatim>\<open>unsigned long\<close> are unsigned 64-bit integers (LP64): addition
  and subtraction wrap around, comparison is unsigned. A raw device pointer
  (\<^verbatim>\<open>void *\<close>) is a 64-bit address, \<^verbatim>\<open>nullptr\<close> being address 0.
\<close>

type_synonym size_t = "64 word"
type_synonym voidp = "64 word"

definition nullptr :: voidp where
  "nullptr = 0"

text \<open>The error codes that the modelled functions throw or return.\<close>

datatype hipError_t =
    hipSuccess
  | hipErrorMemoryAllocation
  | hipErrorTbd
  | hipErrorInvalidDevicePointer
  | hipErrorLaunchFailure
  | hipErrorInvalidSymbol
  | hipErrorUnknown

text \<open>
  A call either returns a value or does not return: \<^verbatim>\<open>CHIPERR_LOG_AND_THROW(msg, code)\<close>
  throws an error carrying \<open>code\<close>, a failed \<^verbatim>\<open>assert\<close> aborts. An \<^verbatim>\<open>assert\<close>
  is compiled out when \<^verbatim>\<open>NDEBUG\<close> is defined; where a property depends on an
  assertion (\<^verbatim>\<open>doActions\<close>), the build is a parameter of the function.
\<close>

datatype failure = CHIPError hipError_t | AssertionFailed

text \<open>
  The kinds of memory of \<^verbatim>\<open>CHIPMemoryType\<close>; the sources at hand name only
  \<^verbatim>\<open>CHIPMemoryType::Shared\<close>. The native allocation \<^verbatim>\<open>allocate_(size, alignment,
  mem_type)\<close> is pure virtual, implemented by a backend: it is a parameter of the
  functions that reach it.
\<close>

datatype CHIPMemoryType = Host | Device | Shared

type_synonym native_allocator = "size_t \<Rightarrow> size_t \<Rightarrow> CHIPMemoryType \<Rightarrow> voidp"

section \<open>CHIPAllocationTracker\<close>

record allocation_info =
  base_ptr :: voidp
  size_bytes :: size_t

record CHIPAllocationTracker =
  name :: string
  global_mem_size :: size_t
  total_mem_used :: size_t
  max_mem_used :: size_t
  dev_to_allocation_info :: "voidp \<rightharpoonup> allocation_info"

text \<open>The constructor: capacity as given, nothing used, nothing recorded.\<close>

definition new_CHIPAllocationTracker :: "size_t \<Rightarrow> string \<Rightarrow> CHIPAllocationTracker" where
  "new_CHIPAllocationTracker global_mem_size_a name_a =
     \<lparr> name = name_a,
       global_mem_size = global_mem_size_a,
       total_mem_used = 0,
       max_mem_used = 0,
       dev_to_allocation_info = Map.empty \<rparr>"

text \<open>
  \<^verbatim>\<open>getByDevPtr\<close> throws \<open>hipErrorTbd\<close> on an unknown pointer and otherwise returns
  the address of the stored record. The result is a pointer, so it is an option here;
  the function never returns the null pointer (\<open>None\<close>).
\<close>

definition getByDevPtr ::
  "CHIPAllocationTracker \<Rightarrow> voidp \<Rightarrow> failure + allocation_info option" where
  "getByDevPtr t dev_ptr =
     (case dev_to_allocation_info t dev_ptr of
        None \<Rightarrow> Inl (CHIPError hipErrorTbd)
      | Some info \<Rightarrow> Inr (Some info))"

text \<open>
  \<^verbatim>\<open>reserveMem\<close>: the test is \<^verbatim>\<open>bytes <= (global_mem_size - total_mem_used)\<close> on
  unsigned 64-bit values; the other branch throws. The function returns the outcome
  together with the tracker as the call leaves it.
\<close>

definition reserveMem ::
  "CHIPAllocationTracker \<Rightarrow> size_t \<Rightarrow> (failure + bool) \<times> CHIPAllocationTracker" where
  "reserveMem t bytes =
     (if bytes \<le> global_mem_size t - total_mem_used t then
        let t1 = t\<lparr>total_mem_used := total_mem_used t + bytes\<rparr>;
            t2 = (if total_mem_used t1 > max_mem_used t1
                  then t1\<lparr>max_mem_used := total_mem_used t1\<rparr> else t1)
        in (Inr True, t2)
      else (Inl (CHIPError hipErrorMemoryAllocation), t))"

definition releaseMemReservation ::
  "CHIPAllocationTracker \<Rightarrow> size_t \<Rightarrow> bool \<times> CHIPAllocationTracker" where
  "releaseMemReservation t bytes =
     (if total_mem_used t \<ge> bytes
      then (True, t\<lparr>total_mem_used := total_mem_used t - bytes\<rparr>)
      else (False, t))"

definition recordAllocation ::
  "CHIPAllocationTracker \<Rightarrow> voidp \<Rightarrow> size_t \<Rightarrow> CHIPAllocationTracker" where
  "recordAllocation t dev_ptr size_a =
     t\<lparr>dev_to_allocation_info :=
         (dev_to_allocation_info t)(dev_ptr \<mapsto> \<lparr>base_ptr = dev_ptr, size_bytes = size_a\<rparr>)\<rparr>"

text \<open>
  A client of one tracker issues a sequence of calls. A call that throws leaves the
  tracker as it was and the client goes on with the next call.
\<close>

datatype tracker_call =
    ReserveMem size_t
  | ReleaseMemReservation size_t
  | RecordAllocation voidp size_t

fun do_call :: "CHIPAllocationTracker \<Rightarrow> tracker_call \<Rightarrow> CHIPAllocationTracker" where
  "do_call t (ReserveMem bytes) = snd (reserveMem t bytes)"
| "do_call t (ReleaseMemReservation bytes) = snd (releaseMemReservation t bytes)"
| "do_call t (RecordAllocation p n) = recordAllocation t p n"

text \<open>The tracker after each call of a sequence, in order.\<close>

fun states_after :: "CHIPAllocationTracker \<Rightarrow> tracker_call list \<Rightarrow> CHIPAllocationTracker list" where
  "states_after t [] = []"
| "states_after t (c # cs) = do_call t c # states_after (do_call t c) cs"

definition run_calls :: "CHIPAllocationTracker \<Rightarrow> tracker_call list \<Rightarrow> CHIPAllocationTracker" where
  "run_calls t cs = foldl do_call t cs"

text \<open>The ledger invariant: the counter does not exceed the capacity.\<close>

definition within_capacity :: "CHIPAllocationTracker \<Rightarrow> bool" where
  "within_capacity t \<longleftrightarrow> total_mem_used t \<le> global_mem_size t"

section \<open>CHIPContext: allocation and release\<close>

text \<open>
  \<^verbatim>\<open>CHIPContext::allocate\<close> and \<^verbatim>\<open>CHIPContext::free\<close> work on the tracker of the
  backend's active device, which the source asserts to belong to the context and to
  exist. The state they touch is that tracker and the native allocator behind the pure
  virtual \<^verbatim>\<open>allocate_\<close> and \<^verbatim>\<open>free_\<close>: the native allocation is a parameter
  (\<open>allocate_impl\<close>, whose result \<open>nullptr\<close> is a failed allocation), and every
  pointer handed to \<^verbatim>\<open>free_\<close> is appended to \<open>native_frees\<close>.
\<close>

record CHIPContext =
  allocation_tracker :: CHIPAllocationTracker
  native_frees :: "voidp list"

definition allocate ::
  "native_allocator \<Rightarrow> CHIPContext \<Rightarrow> size_t \<Rightarrow> size_t \<Rightarrow> CHIPMemoryType
     \<Rightarrow> (failure + voidp) \<times> CHIPContext" where
  "allocate allocate_impl ctx size_a alignment mem_type =
     (case reserveMem (allocation_tracker ctx) size_a of
        (Inl err, t) \<Rightarrow> (Inl err, ctx\<lparr>allocation_tracker := t\<rparr>)
      | (Inr False, t) \<Rightarrow> (Inr nullptr, ctx\<lparr>allocation_tracker := t\<rparr>)
      | (Inr True, t) \<Rightarrow>
          let allocated_ptr = allocate_impl size_a alignment mem_type;
              t1 = (if allocated_ptr = nullptr
                    then snd (releaseMemReservation t size_a) else t);
              t2 = recordAllocation t1 allocated_ptr size_a
          in (Inr allocated_ptr, ctx\<lparr>allocation_tracker := t2\<rparr>))"

definition free :: "CHIPContext \<Rightarrow> voidp \<Rightarrow> (failure + hipError_t) \<times> CHIPContext" where
  "free ctx ptr =
     (case getByDevPtr (allocation_tracker ctx) ptr of
        Inl err \<Rightarrow> (Inl err, ctx)
      | Inr None \<Rightarrow> (Inr hipErrorInvalidDevicePointer, ctx)
      | Inr (Some info) \<Rightarrow>
          let t = snd (releaseMemReservation (allocation_tracker ctx) (size_bytes info))
          in (Inr hipSuccess,
              ctx\<lparr>allocation_tracker := t, native_frees := native_frees ctx @ [ptr]\<rparr>))"

text \<open>A context whose active device has a fresh tracker of the given capacity.\<close>

definition new_CHIPContext :: "size_t \<Rightarrow> CHIPContext" where
  "new_CHIPContext cap =
     \<lparr> allocation_tracker = new_CHIPAllocationTracker cap ''dev'', native_frees = [] \<rparr>"

text \<open>Two live allocations of 8 bytes each, at addresses 4096 and 8192.\<close>

definition two_allocations :: CHIPContext where
  "two_allocations =
     snd (allocate (\<lambda>n a m. 8192)
           (snd (allocate (\<lambda>n a m. 4096) (new_CHIPContext 100) 8 0 Shared)) 8 0 Shared)"

section \<open>CHIPExecItem: the serialized kernel arguments\<close>

text \<open>
  \<^verbatim>\<open>arg_data\<close> is a \<^verbatim>\<open>std::vector<uint8_t>\<close>, a list of bytes. \<^verbatim>\<open>resize(n)\<close> cuts
  the vector to \<open>n\<close> elements or extends it with zero bytes; \<^verbatim>\<open>memcpy\<close> to position
  \<open>off\<close> overwrites as many bytes as it is given. The queue of an exec item is a handle.
\<close>

type_synonym uint8_t = "8 word"

record dim3 =
  dim3_x :: "32 word"
  dim3_y :: "32 word"
  dim3_z :: "32 word"

record CHIPExecItem =
  grid_dim :: dim3
  block_dim :: dim3
  shared_mem :: size_t
  chip_queue :: nat
  arg_data :: "uint8_t list"
  offset_sizes :: "(size_t \<times> size_t) list"

definition resize :: "uint8_t list \<Rightarrow> nat \<Rightarrow> uint8_t list" where
  "resize v n = (if n \<le> length v then take n v else v @ replicate (n - length v) 0)"

definition memcpy :: "uint8_t list \<Rightarrow> nat \<Rightarrow> uint8_t list \<Rightarrow> uint8_t list" where
  "memcpy v off src = take off v @ src @ drop (off + length src) v"

text \<open>
  \<^verbatim>\<open>setArg(arg, size, offset)\<close>: \<open>arg\<close> stands for the bytes at the address passed,
  of which the first \<open>size\<close> are copied. Sizes and offsets are \<^verbatim>\<open>size_t\<close>, their sums
  wrap around as in the source; positions in the vector are their unsigned values. When
  a sum wraps around, or fewer than \<open>size\<close> bytes are passed, the source reads or
  writes out of bounds, which is undefined: the model's value says nothing there.
\<close>

definition setArg :: "CHIPExecItem \<Rightarrow> uint8_t list \<Rightarrow> size_t \<Rightarrow> size_t \<Rightarrow> CHIPExecItem" where
  "setArg ei arg size_a offset =
     (let d = (if unat (offset + size_a) > length (arg_data ei)
               then resize (arg_data ei) (unat (offset + size_a + 1024))
               else arg_data ei)
      in ei\<lparr>arg_data := memcpy d (unat offset) (take (unat size_a) arg),
            offset_sizes := offset_sizes ei @ [(offset, size_a)]\<rparr>)"

definition getArgData :: "CHIPExecItem \<Rightarrow> uint8_t list" where
  "getArgData ei = arg_data ei"

text \<open>The \<open>n\<close> bytes of a buffer that start at position \<open>off\<close>.\<close>

definition bytes_at :: "uint8_t list \<Rightarrow> nat \<Rightarrow> nat \<Rightarrow> uint8_t list" where
  "bytes_at v off n = take n (drop off v)"

text \<open>A sequence of \<^verbatim>\<open>setArg\<close> calls, each given as (bytes, size, offset).\<close>

type_synonym arg_call = "uint8_t list \<times> size_t \<times> size_t"

fun setArgs :: "CHIPExecItem \<Rightarrow> arg_call list \<Rightarrow> CHIPExecItem" where
  "setArgs ei [] = ei"
| "setArgs ei ((arg, size_a, offset) # cs) = setArgs (setArg ei arg size_a offset) cs"

text \<open>
  A call is in range when it passes exactly \<open>size\<close> bytes and
  \<open>offset + size + 1024\<close> does not wrap around; it is apart from a range of the buffer
  when the bytes it writes lie wholly before or wholly after the range.
\<close>

definition fits_size_t :: "arg_call \<Rightarrow> bool" where
  "fits_size_t c = (case c of (arg, size_a, offset) \<Rightarrow>
     length arg = unat size_a \<and> unat offset + unat size_a + 1024 < 2 ^ 64)"

definition apart :: "arg_call \<Rightarrow> nat \<Rightarrow> nat \<Rightarrow> bool" where
  "apart c o2 n2 = (case c of (arg, size_a, offset) \<Rightarrow>
     o2 + n2 \<le> unat offset \<or> unat offset + unat size_a \<le> o2)"

text \<open>The buffer of \<^verbatim>\<open>setArg\<close> after its resize and before its copy.\<close>

definition grown :: "uint8_t list \<Rightarrow> size_t \<Rightarrow> size_t \<Rightarrow> uint8_t list" where
  "grown v size_a offset =
     (if unat (offset + size_a) > length v then resize v (unat (offset + size_a + 1024)) else v)"

fun pairwise_apart :: "arg_call list \<Rightarrow> bool" where
  "pairwise_apart [] = True"
| "pairwise_apart ((arg, size_a, offset) # cs) =
     ((\<forall>d \<in> set cs. apart d (unat offset) (unat size_a)) \<and> pairwise_apart cs)"

text \<open>The constructor leaves the argument buffer and the offset table empty.\<close>

definition new_CHIPExecItem :: "dim3 \<Rightarrow> dim3 \<Rightarrow> size_t \<Rightarrow> nat \<Rightarrow> CHIPExecItem" where
  "new_CHIPExecItem grid_dim_a block_dim_a shared_mem_a chip_queue_a =
     \<lparr> grid_dim = grid_dim_a, block_dim = block_dim_a, shared_mem = shared_mem_a,
       chip_queue = chip_queue_a, arg_data = [], offset_sizes = [] \<rparr>"


definition one_dim3 :: dim3 where
  "one_dim3 = \<lparr>dim3_x = 1, dim3_y = 1, dim3_z = 1\<rparr>"

section \<open>CHIPBackend: device selection by requested capability\<close>

text \<open>
  The fields of \<^verbatim>\<open>hipDeviceProp_t\<close> that \<^verbatim>\<open>findDeviceMatchingProps\<close> reads. In the
  HIP header the counters are \<^verbatim>\<open>int\<close> (32-bit, compared as signed values) and the
  memory sizes are \<^verbatim>\<open>size_t\<close> (compared as unsigned values).
\<close>

record hipDeviceProp_t =
  major :: "32 word"
  minor :: "32 word"
  totalGlobalMem :: size_t
  sharedMemPerBlock :: size_t
  maxThreadsPerBlock :: "32 word"
  totalConstMem :: size_t
  multiProcessorCount :: "32 word"
  maxThreadsPerMultiProcessor :: "32 word"
  memoryClockRate :: "32 word"
  memoryBusWidth :: "32 word"
  l2CacheSize :: "32 word"
  regsPerBlock :: "32 word"
  maxSharedMemoryPerMultiProcessor :: size_t
  warpSize :: "32 word"

record CHIPDevice =
  idx :: int
  hip_device_props :: hipDeviceProp_t

text \<open>
  \<^verbatim>\<open>CHIPDevice *matched_device;\<close> is declared without an initial value: until the
  loop assigns it, it holds an indeterminate value, which is not the null pointer.
\<close>

datatype 'a pointer = Indeterminate | Pointer 'a

text \<open>
  For one candidate, the fourteen tests of the loop body in source order. Each is a pair:
  whether the field is requested (non-zero in \<open>properties\<close>), and whether the
  candidate's value is at least the requested one.
\<close>

definition field_checks :: "hipDeviceProp_t \<Rightarrow> hipDeviceProp_t \<Rightarrow> (bool \<times> bool) list" where
  "field_checks properties currentProp =
     [(major properties \<noteq> 0, sint (major currentProp) \<ge> sint (major properties)),
      (minor properties \<noteq> 0, sint (minor currentProp) \<ge> sint (minor properties)),
      (totalGlobalMem properties \<noteq> 0, totalGlobalMem currentProp \<ge> totalGlobalMem properties),
      (sharedMemPerBlock properties \<noteq> 0,
         sharedMemPerBlock currentProp \<ge> sharedMemPerBlock properties),
      (maxThreadsPerBlock properties \<noteq> 0,
         sint (maxThreadsPerBlock currentProp) \<ge> sint (maxThreadsPerBlock properties)),
      (totalConstMem properties \<noteq> 0, totalConstMem currentProp \<ge> totalConstMem properties),
      (multiProcessorCount properties \<noteq> 0,
         sint (multiProcessorCount currentProp) \<ge> sint (multiProcessorCount properties)),
      (maxThreadsPerMultiProcessor properties \<noteq> 0,
         sint (maxThreadsPerMultiProcessor currentProp)
           \<ge> sint (maxThreadsPerMultiProcessor properties)),
      (memoryClockRate properties \<noteq> 0,
         sint (memoryClockRate currentProp) \<ge> sint (memoryClockRate properties)),
      (memoryBusWidth properties \<noteq> 0,
         sint (memoryBusWidth currentProp) \<ge> sint (memoryBusWidth properties)),
      (l2CacheSize properties \<noteq> 0, sint (l2CacheSize currentProp) \<ge> sint (l2CacheSize properties)),
      (regsPerBlock properties \<noteq> 0,
         sint (regsPerBlock currentProp) \<ge> sint (regsPerBlock properties)),
      (maxSharedMemoryPerMultiProcessor properties \<noteq> 0,
         maxSharedMemoryPerMultiProcessor currentProp
           \<ge> maxSharedMemoryPerMultiProcessor properties),
      (warpSize properties \<noteq> 0, sint (warpSize currentProp) \<ge> sint (warpSize properties))]"

text \<open>
  One test updates the two counters:
  \<^verbatim>\<open>if (requested) { validPropCount++; if (met) matchedCount++; }\<close>.
\<close>

fun count_field :: "int \<times> int \<Rightarrow> bool \<times> bool \<Rightarrow> int \<times> int" where
  "count_field (validPropCount, matchedCount) (requested, met) =
     (if requested
      then (validPropCount + 1, if met then matchedCount + 1 else matchedCount)
      else (validPropCount, matchedCount))"

definition prop_counts :: "hipDeviceProp_t \<Rightarrow> hipDeviceProp_t \<Rightarrow> int \<times> int" where
  "prop_counts properties currentProp =
     foldl count_field (0, 0) (field_checks properties currentProp)"

text \<open>
  The loop over \<^verbatim>\<open>chip_devices\<close>, with the locals \<open>matched_device\<close> and
  \<open>maxMatchedCount\<close> as its state. \<^verbatim>\<open>copyDeviceProperties\<close> copies the device's
  \<open>hip_device_props\<close> into \<open>currentProp\<close>.
\<close>

fun match_loop ::
  "hipDeviceProp_t \<Rightarrow> CHIPDevice list \<Rightarrow> CHIPDevice pointer \<times> int \<Rightarrow> CHIPDevice pointer \<times> int" where
  "match_loop properties [] st = st"
| "match_loop properties (dev # devs) (matched_device, maxMatchedCount) =
     (let currentProp = hip_device_props dev;
          (validPropCount, matchedCount) = prop_counts properties currentProp
      in match_loop properties devs
           (if validPropCount = matchedCount
            then (if matchedCount > maxMatchedCount then Pointer dev else matched_device,
                  max matchedCount maxMatchedCount)
            else (matched_device, maxMatchedCount)))"

definition findDeviceMatchingProps :: "hipDeviceProp_t \<Rightarrow> CHIPDevice list \<Rightarrow> CHIPDevice pointer" where
  "findDeviceMatchingProps properties chip_devices =
     fst (match_loop properties chip_devices (Indeterminate, 0))"

text \<open>
  A device meets a request when it passes every test whose field is requested. The two
  counters of the loop body for a device are named as in the source.
\<close>

definition meets_requested :: "hipDeviceProp_t \<Rightarrow> CHIPDevice \<Rightarrow> bool" where
  "meets_requested properties dev =
     (\<forall>(requested, met) \<in> set (field_checks properties (hip_device_props dev)). requested \<longrightarrow> met)"

definition validPropCount :: "hipDeviceProp_t \<Rightarrow> CHIPDevice \<Rightarrow> int" where
  "validPropCount properties dev = fst (prop_counts properties (hip_device_props dev))"

definition matchedCount :: "hipDeviceProp_t \<Rightarrow> CHIPDevice \<Rightarrow> int" where
  "matchedCount properties dev = snd (prop_counts properties (hip_device_props dev))"

text \<open>
  The request with every field zero, and a device of index \<open>i\<close> whose properties are
  zero except for \<open>major = m\<close>.
\<close>

definition no_request :: hipDeviceProp_t where
  "no_request = \<lparr> major = 0, minor = 0, totalGlobalMem = 0, sharedMemPerBlock = 0,
     maxThreadsPerBlock = 0, totalConstMem = 0, multiProcessorCount = 0,
     maxThreadsPerMultiProcessor = 0, memoryClockRate = 0, memoryBusWidth = 0,
     l2CacheSize = 0, regsPerBlock = 0, maxSharedMemoryPerMultiProcessor = 0, warpSize = 0 \<rparr>"

definition device_with_major :: "int \<Rightarrow> 32 word \<Rightarrow> CHIPDevice" where
  "device_with_major i m = \<lparr> idx = i, hip_device_props = no_request\<lparr>major := m\<rparr> \<rparr>"

section \<open>CHIPEvent\<close>

text \<open>
  Modelled from the spec: the enumeration of the event states is declared in a header
  that is not among the sources. The sources name \<open>EVENT_STATUS_INIT\<close> (set by the
  constructor) and \<open>EVENT_STATUS_RECORDING\<close> (set by \<^verbatim>\<open>recordStream\<close>); the third
  state is the spec's COMPLETE.
\<close>

datatype event_status_e = EVENT_STATUS_INIT | EVENT_STATUS_RECORDING | EVENT_STATUS_COMPLETE

text \<open>
  The base event carries its status and the diagnostic tag \<open>msg\<close>; the Level Zero
  event adds the list of deferred actions, kept in attachment order.
\<close>

record CHIPEvent =
  event_status :: event_status_e
  msg :: string

record 'act CHIPEventLevel0 = CHIPEvent +
  Actions :: "'act list"

definition new_CHIPEvent :: CHIPEvent where
  "new_CHIPEvent = \<lparr> event_status = EVENT_STATUS_INIT, msg = [] \<rparr>"

text \<open>
  \<^verbatim>\<open>recordStream(chip_queue)\<close>: \<open>last_event\<close> is \<^verbatim>\<open>chip_queue->getLastEvent()\<close>,
  asserted to be non-null. \<^verbatim>\<open>takeOver\<close> is backend code and stays a parameter; the
  status is assigned after it.
\<close>

definition recordStream ::
  "('e CHIPEvent_scheme \<Rightarrow> 'e CHIPEvent_scheme \<Rightarrow> 'e CHIPEvent_scheme)
     \<Rightarrow> 'e CHIPEvent_scheme \<Rightarrow> 'e CHIPEvent_scheme option \<Rightarrow> failure + 'e CHIPEvent_scheme" where
  "recordStream takeOver this last_event =
     (case last_event of
        None \<Rightarrow> Inl AssertionFailed
      | Some other \<Rightarrow> Inr ((takeOver this other)\<lparr>event_status := EVENT_STATUS_RECORDING\<rparr>))"

text \<open>
  Modelled from the spec: \<^verbatim>\<open>isFinished\<close> is declared in the header; an event is
  finished when its status is COMPLETE.
\<close>

definition isFinished :: "'e CHIPEvent_scheme \<Rightarrow> bool" where
  "isFinished ev \<longleftrightarrow> event_status ev = EVENT_STATUS_COMPLETE"

text \<open>
  \<^verbatim>\<open>addAction\<close> appends an action to the list. \<^verbatim>\<open>doActions\<close> calls every action of
  the list in order and clears the list. Its only guard is
  \<^verbatim>\<open>assert(isFinished() && ...)\<close>: in a build with assertions (\<open>NDEBUG\<close> false) the
  call aborts on an event that is not finished; in a build without them (\<open>NDEBUG\<close>
  true) the actions are called whatever the status is. The last argument and the result
  carry the sequence of actions called so far, which stands for their effects.
\<close>

definition addAction :: "'act CHIPEventLevel0 \<Rightarrow> 'act \<Rightarrow> 'act CHIPEventLevel0" where
  "addAction ev Action = ev\<lparr>Actions := Actions ev @ [Action]\<rparr>"

definition doActions ::
  "bool \<Rightarrow> 'act CHIPEventLevel0 \<Rightarrow> 'act list \<Rightarrow> failure + ('act CHIPEventLevel0 \<times> 'act list)" where
  "doActions NDEBUG ev executed =
     (if \<not> NDEBUG \<and> \<not> isFinished ev
      then Inl AssertionFailed
      else Inr (ev\<lparr>Actions := []\<rparr>, executed @ Actions ev))"

text \<open>
  A client of one event attaches actions and runs them, in any order of calls. A call
  that aborts ends the sequence. \<open>attached\<close> gives the actions that a sequence of calls
  attaches, in attachment order.
\<close>

datatype 'act event_call = AddAction 'act | DoActions

fun event_calls ::
  "bool \<Rightarrow> 'act CHIPEventLevel0 \<times> 'act list \<Rightarrow> 'act event_call list
     \<Rightarrow> failure + ('act CHIPEventLevel0 \<times> 'act list)" where
  "event_calls NDEBUG st [] = Inr st"
| "event_calls NDEBUG (ev, executed) (AddAction Action # calls) =
     event_calls NDEBUG (addAction ev Action, executed) calls"
| "event_calls NDEBUG (ev, executed) (DoActions # calls) =
     (case doActions NDEBUG ev executed of
        Inl err \<Rightarrow> Inl err
      | Inr st \<Rightarrow> event_calls NDEBUG st calls)"

fun attached :: "'act event_call list \<Rightarrow> 'act list" where
  "attached [] = []"
| "attached (AddAction Action # calls) = Action # attached calls"
| "attached (DoActions # calls) = attached calls"

text \<open>
  For the concrete cases: a \<^verbatim>\<open>takeOver\<close> that copies the tag, an event that has
  completed, the last event of a queue, and Level Zero events without actions, one
  finished and one still recording.
\<close>

definition copy_msg :: "'e CHIPEvent_scheme \<Rightarrow> 'e CHIPEvent_scheme \<Rightarrow> 'e CHIPEvent_scheme" where
  "copy_msg this other = this\<lparr>msg := msg other\<rparr>"

definition complete_event :: CHIPEvent where
  "complete_event = \<lparr> event_status = EVENT_STATUS_COMPLETE, msg = ''memCopy'' \<rparr>"

definition last_event_of_queue :: CHIPEvent where
  "last_event_of_queue = \<lparr> event_status = EVENT_STATUS_RECORDING, msg = ''launch'' \<rparr>"

definition finished_event :: "nat CHIPEventLevel0" where
  "finished_event = \<lparr> event_status = EVENT_STATUS_COMPLETE, msg = ''launch'', Actions = [] \<rparr>"

definition recording_event :: "nat CHIPEventLevel0" where
  "recording_event = \<lparr> event_status = EVENT_STATUS_RECORDING, msg = ''launch'', Actions = [] \<rparr>"

section \<open>CHIPModule: device variables\<close>

text \<open>
  Modelled from the spec: the prefixes of the shadow kernel names and the layout of
  \<^verbatim>\<open>CHIPVarInfo\<close> are declared in headers that are not among the sources. An info
  kernel reports size, alignment and has-initializer, here three 64-bit values; the
  shadow kernels of a variable are named by a prefix and the variable's name.
\<close>

definition ChipVarInfoPrefix :: string where
  "ChipVarInfoPrefix = ''__chip_var_info_''"

definition ChipVarBindPrefix :: string where
  "ChipVarBindPrefix = ''__chip_var_bind_''"

definition ChipVarInitPrefix :: string where
  "ChipVarInitPrefix = ''__chip_var_init_''"

definition sizeof_CHIPVarInfo :: size_t where
  "sizeof_CHIPVarInfo = 24"

record CHIPVarInfo =
  info_size :: size_t
  info_alignment :: size_t
  info_has_initializer :: size_t

text \<open>
  A device variable has no device address (\<open>nullptr\<close>) until storage is allocated.
  A module holds its kernels (by name), its variables and the two phase flags.
\<close>

record CHIPDeviceVar =
  Name :: string
  Size :: size_t
  DevAddr :: voidp
  HasInitializer :: bool

definition new_CHIPDeviceVar :: "string \<Rightarrow> size_t \<Rightarrow> CHIPDeviceVar" where
  "new_CHIPDeviceVar TheName TheSize =
     \<lparr> Name = TheName, Size = TheSize, DevAddr = nullptr, HasInitializer = False \<rparr>"

record CHIPModule =
  chip_kernels :: "string list"
  chip_vars :: "CHIPDeviceVar list"
  DeviceVariablesAllocated :: bool
  DeviceVariablesInitialized :: bool

text \<open>
  The functions act on the module, on the queue (what is submitted to it is recorded in
  order: kernel launches, asynchronous copies and the blocking \<^verbatim>\<open>finish\<close>) and on the
  context they allocate from. The native allocator and the variable information read
  back from the device (by index of the variable) are parameters.
\<close>

datatype queue_op = Launch string | MemCopyAsync size_t | Finish

record runtime =
  chip_module :: CHIPModule
  queue_ops :: "queue_op list"
  chip_context :: CHIPContext

text \<open>\<^verbatim>\<open>getKernel(name)\<close> throws \<open>hipErrorLaunchFailure\<close> when no kernel has the name.\<close>

definition getKernel :: "CHIPModule \<Rightarrow> string \<Rightarrow> failure + string" where
  "getKernel m kernel_name =
     (if kernel_name \<in> set (chip_kernels m) then Inr kernel_name
      else Inl (CHIPError hipErrorLaunchFailure))"

definition queueKernel :: "runtime \<Rightarrow> string \<Rightarrow> runtime" where
  "queueKernel rt K = rt\<lparr>queue_ops := queue_ops rt @ [Launch K]\<rparr>"

definition finish :: "runtime \<Rightarrow> runtime" where
  "finish rt = rt\<lparr>queue_ops := queue_ops rt @ [Finish]\<rparr>"

definition memCopyAsync :: "runtime \<Rightarrow> size_t \<Rightarrow> runtime" where
  "memCopyAsync rt n = rt\<lparr>queue_ops := queue_ops rt @ [MemCopyAsync n]\<rparr>"

definition queueVariableInfoShadowKernel :: "runtime \<Rightarrow> CHIPDeviceVar \<Rightarrow> failure + runtime" where
  "queueVariableInfoShadowKernel rt Var =
     (case getKernel (chip_module rt) (ChipVarInfoPrefix @ Name Var) of
        Inl err \<Rightarrow> Inl err
      | Inr K \<Rightarrow> Inr (queueKernel rt K))"

definition queueVariableBindShadowKernel :: "runtime \<Rightarrow> CHIPDeviceVar \<Rightarrow> failure + runtime" where
  "queueVariableBindShadowKernel rt Var =
     (if DevAddr Var = nullptr then Inl AssertionFailed
      else case getKernel (chip_module rt) (ChipVarBindPrefix @ Name Var) of
             Inl err \<Rightarrow> Inl err
           | Inr K \<Rightarrow> Inr (queueKernel rt K))"

definition queueVariableInitShadowKernel :: "runtime \<Rightarrow> CHIPDeviceVar \<Rightarrow> failure + runtime" where
  "queueVariableInitShadowKernel rt Var =
     (case getKernel (chip_module rt) (ChipVarInitPrefix @ Name Var) of
        Inl err \<Rightarrow> Inl err
      | Inr K \<Rightarrow> Inr (queueKernel rt K))"

text \<open>\<^verbatim>\<open>Ctx->allocate(size, alignment, CHIPMemoryType::Shared)\<close> on the runtime's context.\<close>

definition ctx_allocate ::
  "native_allocator \<Rightarrow> runtime \<Rightarrow> size_t \<Rightarrow> size_t \<Rightarrow> failure + (voidp \<times> runtime)" where
  "ctx_allocate allocate_impl rt size_a alignment =
     (case allocate allocate_impl (chip_context rt) size_a alignment Shared of
        (Inl err, c) \<Rightarrow> Inl err
      | (Inr p, c) \<Rightarrow> Inr (p, rt\<lparr>chip_context := c\<rparr>))"

text \<open>
  The two iterations of \<^verbatim>\<open>allocateDeviceVariablesNoLock\<close>: the first queues an info kernel
  per variable; the second, per variable, checks the reported size and alignment,
  allocates the storage, stores the address and the initializer flag in the variable,
  checks the size against the registered one and queues the bind kernel.
\<close>

fun query_vars :: "runtime \<Rightarrow> CHIPDeviceVar list \<Rightarrow> failure + runtime" where
  "query_vars rt [] = Inr rt"
| "query_vars rt (Var # Vars) =
     (case queueVariableInfoShadowKernel rt Var of
        Inl err \<Rightarrow> Inl err
      | Inr rt1 \<Rightarrow> query_vars rt1 Vars)"

fun bind_vars ::
  "native_allocator \<Rightarrow> runtime \<Rightarrow> (CHIPDeviceVar \<times> CHIPVarInfo) list
     \<Rightarrow> failure + (runtime \<times> CHIPDeviceVar list)" where
  "bind_vars allocate_impl rt [] = Inr (rt, [])"
| "bind_vars allocate_impl rt ((Var, VarInfo) # VarInfos) =
     (if info_size VarInfo = 0 then Inl AssertionFailed
      else if info_alignment VarInfo = 0 then Inl AssertionFailed
      else case ctx_allocate allocate_impl rt (info_size VarInfo) (info_alignment VarInfo) of
        Inl err \<Rightarrow> Inl err
      | Inr (p, rt1) \<Rightarrow>
          let Var1 = Var\<lparr>DevAddr := p, HasInitializer := (info_has_initializer VarInfo \<noteq> 0)\<rparr>
          in if Size Var1 \<noteq> info_size VarInfo then Inl AssertionFailed
             else case queueVariableBindShadowKernel rt1 Var1 of
               Inl err \<Rightarrow> Inl err
             | Inr rt2 \<Rightarrow>
                 (case bind_vars allocate_impl rt2 VarInfos of
                    Inl err \<Rightarrow> Inl err
                  | Inr (rt3, Vars) \<Rightarrow> Inr (rt3, Var1 # Vars)))"

definition allocateDeviceVariablesNoLock ::
  "native_allocator \<Rightarrow> (nat \<Rightarrow> CHIPVarInfo) \<Rightarrow> runtime \<Rightarrow> failure + (hipError_t \<times> runtime)" where
  "allocateDeviceVariablesNoLock allocate_impl read_back rt =
     (let m = chip_module rt;
          m1 = m\<lparr>DeviceVariablesAllocated := DeviceVariablesAllocated m \<or> chip_vars m = []\<rparr>;
          rt1 = rt\<lparr>chip_module := m1\<rparr>
      in if DeviceVariablesAllocated m1 then Inr (hipSuccess, rt1)
         else
           let VarInfoBufSize = sizeof_CHIPVarInfo * of_nat (length (chip_vars m1))
           in case ctx_allocate allocate_impl rt1 VarInfoBufSize 0 of
                Inl err \<Rightarrow> Inl err
              | Inr (VarInfoBufD, rt2) \<Rightarrow>
                  if VarInfoBufD = nullptr then Inl AssertionFailed
                  else case query_vars rt2 (chip_vars m1) of
                    Inl err \<Rightarrow> Inl err
                  | Inr rt3 \<Rightarrow>
                      let rt4 = finish (memCopyAsync rt3 VarInfoBufSize);
                          VarInfos = zip (chip_vars m1) (map read_back [0 ..< length (chip_vars m1)])
                      in case bind_vars allocate_impl rt4 VarInfos of
                           Inl err \<Rightarrow> Inl err
                         | Inr (rt5, Vars) \<Rightarrow>
                             let rt6 = finish rt5
                             in Inr (hipSuccess,
                                     rt6\<lparr>chip_module := (chip_module rt6)
                                           \<lparr>chip_vars := Vars, DeviceVariablesAllocated := True\<rparr>\<rparr>))"

text \<open>The loop of \<^verbatim>\<open>initializeDeviceVariablesNoLock\<close>, with its flag \<open>QueuedKernels\<close>.\<close>

fun init_vars :: "runtime \<Rightarrow> bool \<Rightarrow> CHIPDeviceVar list \<Rightarrow> failure + (runtime \<times> bool)" where
  "init_vars rt QueuedKernels [] = Inr (rt, QueuedKernels)"
| "init_vars rt QueuedKernels (Var # Vars) =
     (if \<not> HasInitializer Var then init_vars rt QueuedKernels Vars
      else case queueVariableInitShadowKernel rt Var of
             Inl err \<Rightarrow> Inl err
           | Inr rt1 \<Rightarrow> init_vars rt1 True Vars)"

definition initializeDeviceVariablesNoLock ::
  "native_allocator \<Rightarrow> (nat \<Rightarrow> CHIPVarInfo) \<Rightarrow> runtime \<Rightarrow> failure + runtime" where
  "initializeDeviceVariablesNoLock allocate_impl read_back rt =
     (case allocateDeviceVariablesNoLock allocate_impl read_back rt of
        Inl err \<Rightarrow> Inl err
      | Inr (status, rt1) \<Rightarrow>
          let m = chip_module rt1;
              m1 = m\<lparr>DeviceVariablesInitialized := DeviceVariablesInitialized m \<or> chip_vars m = []\<rparr>;
              rt2 = rt1\<lparr>chip_module := m1\<rparr>
          in if DeviceVariablesInitialized m1
             then (if DeviceVariablesAllocated m1 then Inr rt2 else Inl AssertionFailed)
             else case init_vars rt2 False (chip_vars m1) of
                    Inl err \<Rightarrow> Inl err
                  | Inr (rt3, QueuedKernels) \<Rightarrow>
                      let rt4 = (if QueuedKernels then finish rt3 else rt3)
                      in Inr (rt4\<lparr>chip_module := (chip_module rt4)
                                   \<lparr>DeviceVariablesInitialized := True\<rparr>\<rparr>))"

text \<open>
  For the concrete cases: a module without device variables, a module with one variable
  of 16 bytes, a runtime around a module with an empty queue, an allocator without
  memory and a read-back of zeros, an allocator that answers 1024 and a read-back of
  size 16, alignment 8 and an initializer.
\<close>

definition empty_module :: CHIPModule where
  "empty_module = \<lparr> chip_kernels = [''k''], chip_vars = [],
     DeviceVariablesAllocated = False, DeviceVariablesInitialized = False \<rparr>"

definition one_var_module :: CHIPModule where
  "one_var_module = \<lparr> chip_kernels = [''k'', ''__chip_var_info_v'', ''__chip_var_bind_v'', ''__chip_var_init_v''],
     chip_vars = [new_CHIPDeviceVar ''v'' 16],
     DeviceVariablesAllocated = False, DeviceVariablesInitialized = False \<rparr>"

definition runtime_of :: "CHIPModule \<Rightarrow> runtime" where
  "runtime_of m = \<lparr> chip_module = m, queue_ops = [], chip_context = new_CHIPContext 4096 \<rparr>"

definition no_memory :: native_allocator where
  "no_memory n a m = nullptr"

definition no_info :: "nat \<Rightarrow> CHIPVarInfo" where
  "no_info i = \<lparr> info_size = 0, info_alignment = 0, info_has_initializer = 0 \<rparr>"

definition memory_at_1024 :: native_allocator where
  "memory_at_1024 n a m = 1024"

definition info_16_8_init :: "nat \<Rightarrow> CHIPVarInfo" where
  "info_16_8_init i = \<lparr> info_size = 16, info_alignment = 8, info_has_initializer = 1 \<rparr>"

section \<open>Host callbacks: CHIPCallbackData and CHIPEventMonitor\<close>

text \<open>
  Modelled from the spec: \<^verbatim>\<open>createCHIPEvent\<close>, \<^verbatim>\<open>enqueueBarrierImpl\<close> and
  \<^verbatim>\<open>enqueueMarkerImpl\<close> are backend code that is not among the sources. Creating an
  event gives a new event object; an enqueue operation submits its command to the queue
  and returns the event of that command, a new object as well. An event object is
  identified by the number of events created before it.

  The queue keeps the commands submitted to it in order, each with its event, and its
  last event. A barrier carries the events it waits for (\<open>None\<close> for the null pointer,
  a barrier on everything submitted before).
\<close>

type_synonym event_ptr = nat

datatype queue_command = Operation string | Barrier "event_ptr list option" | Marker

text \<open>
  The record of a pending host callback: the callback and its argument (handles) and the
  three events of the handshake.
\<close>

record CHIPCallbackData =
  callback_f :: nat
  callback_args :: nat
  gpu_ready :: event_ptr
  cpu_callback_complete :: event_ptr
  gpu_ack :: event_ptr

record stream_state =
  events_created :: nat
  enqueued :: "(queue_command \<times> event_ptr) list"
  LastEvent :: "event_ptr option"
  callback_stack :: "CHIPCallbackData list"

definition createCHIPEvent :: "stream_state \<Rightarrow> event_ptr \<times> stream_state" where
  "createCHIPEvent st = (events_created st, st\<lparr>events_created := Suc (events_created st)\<rparr>)"

text \<open>
  \<^verbatim>\<open>enqueueBarrier\<close> and \<^verbatim>\<open>enqueueMarker\<close> of \<^verbatim>\<open>CHIPQueue\<close>: the backend
  implementation submits the command and returns its event, which becomes the last event
  of the queue and is returned.
\<close>

definition submit :: "queue_command \<Rightarrow> stream_state \<Rightarrow> event_ptr \<times> stream_state" where
  "submit cmd st =
     (let (ev, st1) = createCHIPEvent st
      in (ev, st1\<lparr>enqueued := enqueued st1 @ [(cmd, ev)], LastEvent := Some ev\<rparr>))"

definition enqueueBarrier :: "event_ptr list option \<Rightarrow> stream_state \<Rightarrow> event_ptr \<times> stream_state" where
  "enqueueBarrier eventsToWaitFor st = submit (Barrier eventsToWaitFor) st"

definition enqueueMarker :: "stream_state \<Rightarrow> event_ptr \<times> stream_state" where
  "enqueueMarker st = submit Marker st"

text \<open>
  The constructor of \<^verbatim>\<open>CHIPCallbackData\<close> stores the callback and its argument and
  calls \<^verbatim>\<open>setup()\<close>. There, the three members are assigned events from
  \<^verbatim>\<open>createCHIPEvent\<close>, and the statements
  \<^verbatim>\<open>auto gpu_ready = chip_queue->enqueueBarrier(nullptr);\<close> and
  \<^verbatim>\<open>CHIPEvent *gpu_ack = chip_queue->enqueueMarker();\<close> declare locals of the
  members' names: the events of the first barrier and of the marker end in these locals.
\<close>

definition CHIPCallbackData_setup :: "nat \<Rightarrow> nat \<Rightarrow> stream_state \<Rightarrow> CHIPCallbackData \<times> stream_state" where
  "CHIPCallbackData_setup callback_f_a callback_args_a st =
     (let (member_gpu_ready, st1) = createCHIPEvent st;
          (member_cpu_callback_complete, st2) = createCHIPEvent st1;
          (member_gpu_ack, st3) = createCHIPEvent st2;
          (local_gpu_ready, st4) = enqueueBarrier None st3;
          evs = [member_cpu_callback_complete];
          (unused, st5) = enqueueBarrier (Some evs) st4;
          (local_gpu_ack, st6) = enqueueMarker st5
      in (\<lparr> callback_f = callback_f_a, callback_args = callback_args_a,
             gpu_ready = member_gpu_ready,
             cpu_callback_complete = member_cpu_callback_complete,
             gpu_ack = member_gpu_ack \<rparr>, st6))"

text \<open>
  \<^verbatim>\<open>CHIPQueue::addCallback\<close> creates the record, pushes it on the backend's callback
  stack and returns true (it also starts a monitor when the queue has none).
\<close>

definition addCallback :: "nat \<Rightarrow> nat \<Rightarrow> stream_state \<Rightarrow> bool \<times> stream_state" where
  "addCallback callback userData st =
     (let (cb, st1) = CHIPCallbackData_setup callback userData st
      in (True, st1\<lparr>callback_stack := cb # callback_stack st1\<rparr>))"

text \<open>
  \<^verbatim>\<open>CHIPEventMonitor::monitor\<close> takes the pending callbacks one by one (through
  \<^verbatim>\<open>getCallback\<close>) until none is left. For each it does, in program order: wait for
  \<open>gpu_ready\<close>, run the host callback, signal \<open>cpu_callback_complete\<close> from the host,
  wait for \<open>gpu_ack\<close>, delete the record.
\<close>

datatype monitor_step = Wait event_ptr | Execute nat | HostSignal event_ptr | Delete

definition monitor_body :: "CHIPCallbackData \<Rightarrow> monitor_step list" where
  "monitor_body cb =
     [Wait (gpu_ready cb), Execute (callback_f cb), HostSignal (cpu_callback_complete cb),
      Wait (gpu_ack cb), Delete]"

fun monitor :: "CHIPCallbackData list \<Rightarrow> monitor_step list" where
  "monitor [] = []"
| "monitor (cb # cbs) = monitor_body cb @ monitor cbs"

text \<open>
  The events that the device signals are those of the commands submitted to the queue.
\<close>

definition events_of_queue :: "stream_state \<Rightarrow> event_ptr set" where
  "events_of_queue st = snd ` set (enqueued st)"

text \<open>
  A queue with one prior operation, whose event is the only one created so far, and the
  same queue after one callback (handle 7, user data 0) has been added.
\<close>

definition queue_with_one_operation :: stream_state where
  "queue_with_one_operation =
     \<lparr> events_created = 1, enqueued = [(Operation ''memCopyAsync'', 0)], LastEvent = Some 0,
       callback_stack = [] \<rparr>"

definition queue_with_callback :: stream_state where
  "queue_with_callback = snd (addCallback 7 0 queue_with_one_operation)"

section \<open>Properties of the allocation tracker\<close>

lemma reserveMem_within_capacity:
  "within_capacity t \<Longrightarrow> within_capacity (snd (reserveMem t bytes))"
proof -
  assume inv: "within_capacity t"
  show ?thesis
  proof (cases "bytes \<le> global_mem_size t - total_mem_used t")
    case True
    from inv have le: "total_mem_used t \<le> global_mem_size t"
      by (simp add: within_capacity_def)
    have "unat bytes \<le> unat (global_mem_size t) - unat (total_mem_used t)"
      using True le by (simp add: word_le_nat_alt unat_sub)
    then have sum: "unat (total_mem_used t) + unat bytes \<le> unat (global_mem_size t)"
      using le by (simp add: word_le_nat_alt)
    have "unat (global_mem_size t) < 2 ^ 64"
      using unsigned_less [of "global_mem_size t"] by simp
    with sum have "unat (total_mem_used t + bytes) = unat (total_mem_used t) + unat bytes"
      by (simp add: unat_word_ariths)
    with sum have "total_mem_used t + bytes \<le> global_mem_size t"
      by (simp add: word_le_nat_alt)
    with True show ?thesis
      by (simp add: reserveMem_def within_capacity_def Let_def)
  next
    case False
    with inv show ?thesis by (simp add: reserveMem_def)
  qed
qed

lemma releaseMemReservation_within_capacity:
  "within_capacity t \<Longrightarrow> within_capacity (snd (releaseMemReservation t bytes))"
proof -
  assume inv: "within_capacity t"
  show ?thesis
  proof (cases "bytes \<le> total_mem_used t")
    case True
    then have "total_mem_used t - bytes \<le> total_mem_used t"
      by (simp add: word_le_nat_alt unat_sub)
    with inv True show ?thesis
      by (simp add: releaseMemReservation_def within_capacity_def)
  next
    case False
    with inv show ?thesis by (simp add: releaseMemReservation_def)
  qed
qed

lemma recordAllocation_within_capacity:
  "within_capacity t \<Longrightarrow> within_capacity (recordAllocation t p n)"
  by (simp add: recordAllocation_def within_capacity_def)

lemma do_call_within_capacity:
  "within_capacity t \<Longrightarrow> within_capacity (do_call t c)"
  by (cases c)
     (simp_all add: reserveMem_within_capacity releaseMemReservation_within_capacity
        recordAllocation_within_capacity)

lemma do_call_global_mem_size:
  "global_mem_size (do_call t c) = global_mem_size t"
  by (cases c)
     (simp_all add: reserveMem_def releaseMemReservation_def recordAllocation_def Let_def)

lemma new_tracker_within_capacity:
  "within_capacity (new_CHIPAllocationTracker cap nm)"
  by (simp add: within_capacity_def new_CHIPAllocationTracker_def)

lemma states_after_invariant:
  "within_capacity t \<Longrightarrow> s \<in> set (states_after t cs) \<Longrightarrow>
     within_capacity s \<and> global_mem_size s = global_mem_size t"
proof (induction cs arbitrary: t)
  case Nil
  then show ?case by simp
next
  case (Cons c cs)
  from Cons.prems(2) have "s = do_call t c \<or> s \<in> set (states_after (do_call t c) cs)"
    by simp
  then show ?case
  proof
    assume "s = do_call t c"
    with Cons.prems(1) show ?thesis
      by (simp add: do_call_within_capacity do_call_global_mem_size)
  next
    assume "s \<in> set (states_after (do_call t c) cs)"
    with Cons.IH [of "do_call t c"] Cons.prems(1) show ?thesis
      by (simp add: do_call_within_capacity do_call_global_mem_size)
  qed
qed

lemma run_calls_within_capacity:
  "within_capacity t \<Longrightarrow> within_capacity (run_calls t cs)"
  unfolding run_calls_def
  by (induction cs arbitrary: t) (simp_all add: do_call_within_capacity)

text \<open>
  C1. On a tracker created with capacity \<open>cap\<close>, after every call of every finite
  sequence of calls the counter \<open>total_mem_used\<close> is at least zero and at most the
  capacity, which stays \<open>cap\<close>.
\<close>

theorem tracker_used_within_capacity:
  "\<forall>s \<in> set (states_after (new_CHIPAllocationTracker cap nm) calls).
     0 \<le> total_mem_used s \<and> total_mem_used s \<le> global_mem_size s \<and> global_mem_size s = cap"
proof
  fix s
  assume "s \<in> set (states_after (new_CHIPAllocationTracker cap nm) calls)"
  with states_after_invariant [OF new_tracker_within_capacity]
  have "within_capacity s \<and> global_mem_size s = global_mem_size (new_CHIPAllocationTracker cap nm)"
    by blast
  then show "0 \<le> total_mem_used s \<and> total_mem_used s \<le> global_mem_size s \<and> global_mem_size s = cap"
    by (auto simp add: within_capacity_def new_CHIPAllocationTracker_def)
qed

theorem tracker_used_within_capacity_witness:
  "do_call (new_CHIPAllocationTracker 100 ''dev'') (ReserveMem 60)
     \<in> set (states_after (new_CHIPAllocationTracker 100 ''dev'')
              [ReserveMem 60, ReserveMem 50, ReleaseMemReservation 70, ReleaseMemReservation 10])
   \<and> total_mem_used (do_call (new_CHIPAllocationTracker 100 ''dev'') (ReserveMem 60))
       \<le> global_mem_size (do_call (new_CHIPAllocationTracker 100 ''dev'') (ReserveMem 60))
   \<and> global_mem_size (do_call (new_CHIPAllocationTracker 100 ''dev'') (ReserveMem 60)) = 100
   \<and> map total_mem_used (states_after (new_CHIPAllocationTracker 100 ''dev'')
              [ReserveMem 60, ReserveMem 50, ReleaseMemReservation 70, ReleaseMemReservation 10])
       = [60, 60, 60, 50]"
  using tracker_used_within_capacity [of 100 "''dev''"
      "[ReserveMem 60, ReserveMem 50, ReleaseMemReservation 70, ReleaseMemReservation 10]"]
  by (simp add: new_CHIPAllocationTracker_def reserveMem_def releaseMemReservation_def Let_def)

text \<open>
  C4, as the code has it. \<^verbatim>\<open>releaseMemReservation(bytes)\<close> returns true exactly when
  \<open>bytes\<close> does not exceed \<open>total_mem_used\<close>, and then the counter is decremented by
  \<open>bytes\<close>; when \<open>bytes\<close> exceeds the counter it returns false and leaves the counter
  (and the rest of the tracker) as it was.
\<close>

theorem releaseMemReservation_result:
  "fst (releaseMemReservation t bytes) = (bytes \<le> total_mem_used t)
   \<and> snd (releaseMemReservation t bytes) =
       (if bytes \<le> total_mem_used t
        then t\<lparr>total_mem_used := total_mem_used t - bytes\<rparr> else t)"
  by (simp add: releaseMemReservation_def)

text \<open>
  C4, as the claim states it, fails: with 5 bytes outstanding, releasing 10 reports
  false, but the counter is not clamped to zero, it stays 5.
\<close>

theorem releaseMemReservation_not_clamped:
  "fst (releaseMemReservation
          ((new_CHIPAllocationTracker 100 ''dev'')\<lparr>total_mem_used := 5\<rparr>) 10) = False
   \<and> total_mem_used (snd (releaseMemReservation
          ((new_CHIPAllocationTracker 100 ''dev'')\<lparr>total_mem_used := 5\<rparr>) 10)) = 5
   \<and> total_mem_used (snd (releaseMemReservation
          ((new_CHIPAllocationTracker 100 ''dev'')\<lparr>total_mem_used := 5\<rparr>) 10)) \<noteq> 0"
  by (simp add: releaseMemReservation_def new_CHIPAllocationTracker_def)

text \<open>
  C10. \<^verbatim>\<open>reserveMem\<close> never returns false: it returns true, or it throws
  \<open>hipErrorMemoryAllocation\<close> when the request exceeds the remaining capacity and leaves
  the tracker untouched. Hence \<^verbatim>\<open>CHIPContext::allocate\<close> never takes the branch that
  returns a null pointer for a failed reservation: the failure reaches its caller as the
  thrown error.
\<close>

theorem reserveMem_never_returns_false:
  "fst (reserveMem t bytes) \<noteq> Inr False
   \<and> (\<not> bytes \<le> global_mem_size t - total_mem_used t \<longrightarrow>
        reserveMem t bytes = (Inl (CHIPError hipErrorMemoryAllocation), t))
   \<and> (\<not> bytes \<le> global_mem_size (allocation_tracker ctx) - total_mem_used (allocation_tracker ctx) \<longrightarrow>
        allocate allocate_impl ctx bytes alignment mem_type
          = (Inl (CHIPError hipErrorMemoryAllocation), ctx))
   \<and> (fst (allocate allocate_impl ctx bytes alignment mem_type) = Inr nullptr \<longrightarrow>
        fst (reserveMem (allocation_tracker ctx) bytes) = Inr True
        \<and> allocate_impl bytes alignment mem_type = nullptr)"
  by (auto simp add: reserveMem_def allocate_def Let_def split: if_splits)

theorem reserveMem_never_returns_false_witness:
  "\<not> (150 :: size_t) \<le> global_mem_size (allocation_tracker (new_CHIPContext 100))
        - total_mem_used (allocation_tracker (new_CHIPContext 100))
   \<and> reserveMem (allocation_tracker (new_CHIPContext 100)) 150
       = (Inl (CHIPError hipErrorMemoryAllocation), allocation_tracker (new_CHIPContext 100))
   \<and> allocate (\<lambda>n a m. 4096) (new_CHIPContext 100) 150 0 Shared
       = (Inl (CHIPError hipErrorMemoryAllocation), new_CHIPContext 100)
   \<and> fst (allocate (\<lambda>n a m. nullptr) (new_CHIPContext 100) 50 0 Shared) = Inr nullptr
   \<and> fst (reserveMem (allocation_tracker (new_CHIPContext 100)) 50) = Inr True"
  using reserveMem_never_returns_false
          [where t = "allocation_tracker (new_CHIPContext 100)" and bytes = 150
             and ctx = "new_CHIPContext 100" and allocate_impl = "\<lambda>n a m. 4096"
             and alignment = 0 and mem_type = Shared]
        reserveMem_never_returns_false
          [where t = "allocation_tracker (new_CHIPContext 100)" and bytes = 50
             and ctx = "new_CHIPContext 100" and allocate_impl = "\<lambda>n a m. nullptr"
             and alignment = 0 and mem_type = Shared]
  by (simp add: new_CHIPContext_def new_CHIPAllocationTracker_def reserveMem_def
        allocate_def releaseMemReservation_def recordAllocation_def Let_def nullptr_def)

lemma reserve_no_wrap:
  assumes "within_capacity t" and "bytes \<le> global_mem_size t - total_mem_used t"
  shows "bytes \<le> total_mem_used t + bytes"
proof -
  from assms(1) have le: "total_mem_used t \<le> global_mem_size t"
    by (simp add: within_capacity_def)
  have "unat bytes \<le> unat (global_mem_size t) - unat (total_mem_used t)"
    using assms(2) le by (simp add: word_le_nat_alt unat_sub)
  then have sum: "unat (total_mem_used t) + unat bytes \<le> unat (global_mem_size t)"
    using le by (simp add: word_le_nat_alt)
  have "unat (global_mem_size t) < 2 ^ 64"
    using unsigned_less [of "global_mem_size t"] by simp
  with sum have "unat (total_mem_used t + bytes) = unat (total_mem_used t) + unat bytes"
    by (simp add: unat_word_ariths)
  then show ?thesis
    by (simp add: word_le_nat_alt)
qed

lemma reserve_then_release:
  assumes "within_capacity t" and "fst (reserveMem t bytes) = Inr True"
  shows "fst (releaseMemReservation (snd (reserveMem t bytes)) bytes) = True"
    and "total_mem_used (snd (releaseMemReservation (snd (reserveMem t bytes)) bytes))
           = total_mem_used t"
proof -
  from assms(2) have fits: "bytes \<le> global_mem_size t - total_mem_used t"
    by (simp add: reserveMem_def split: if_splits)
  from reserve_no_wrap [OF assms(1) fits] have ge: "bytes \<le> total_mem_used t + bytes" .
  from fits ge show "fst (releaseMemReservation (snd (reserveMem t bytes)) bytes) = True"
    by (simp add: reserveMem_def releaseMemReservation_def Let_def)
  from fits ge show "total_mem_used (snd (releaseMemReservation (snd (reserveMem t bytes)) bytes))
           = total_mem_used t"
    by (simp add: reserveMem_def releaseMemReservation_def Let_def)
qed

text \<open>
  C5. On a tracker within its capacity (the invariant of every tracker, see
  \<open>run_calls_within_capacity\<close>), when \<^verbatim>\<open>allocate\<close> has reserved \<open>size\<close> bytes and the
  native allocation returns null, \<^verbatim>\<open>allocate\<close> returns null and \<open>total_mem_used\<close> is
  what it was before the reservation.
\<close>

theorem allocate_rolls_back_reservation:
  assumes "within_capacity (allocation_tracker ctx)"
    and "fst (reserveMem (allocation_tracker ctx) size_a) = Inr True"
    and "allocate_impl size_a alignment mem_type = nullptr"
  shows "fst (allocate allocate_impl ctx size_a alignment mem_type) = Inr nullptr
       \<and> total_mem_used (allocation_tracker
            (snd (allocate allocate_impl ctx size_a alignment mem_type)))
          = total_mem_used (allocation_tracker ctx)"
proof -
  obtain t where r: "reserveMem (allocation_tracker ctx) size_a = (Inr True, t)"
    using assms(2) by (cases "reserveMem (allocation_tracker ctx) size_a") simp
  from reserve_then_release(2) [OF assms(1) assms(2)] r
  have "total_mem_used (snd (releaseMemReservation t size_a))
          = total_mem_used (allocation_tracker ctx)"
    by simp
  with r assms(3) show ?thesis
    by (simp add: allocate_def Let_def recordAllocation_def)
qed

theorem allocate_rolls_back_reservation_witness:
  "within_capacity (allocation_tracker (new_CHIPContext 100))
   \<and> fst (reserveMem (allocation_tracker (new_CHIPContext 100)) 40) = Inr True
   \<and> (\<lambda>n a m. nullptr) (40 :: size_t) (0 :: size_t) Shared = nullptr
   \<and> fst (allocate (\<lambda>n a m. nullptr) (new_CHIPContext 100) 40 0 Shared) = Inr nullptr
   \<and> total_mem_used (allocation_tracker
        (snd (allocate (\<lambda>n a m. nullptr) (new_CHIPContext 100) 40 0 Shared))) = 0"
proof -
  have a: "within_capacity (allocation_tracker (new_CHIPContext 100))"
    by (simp add: within_capacity_def new_CHIPContext_def new_CHIPAllocationTracker_def)
  have b: "fst (reserveMem (allocation_tracker (new_CHIPContext 100)) 40) = Inr True"
    by (simp add: reserveMem_def new_CHIPContext_def new_CHIPAllocationTracker_def Let_def)
  from allocate_rolls_back_reservation
         [where allocate_impl = "\<lambda>n a m. nullptr" and alignment = 0
            and mem_type = Shared, OF a b] a b
  show ?thesis
    by (simp add: new_CHIPContext_def new_CHIPAllocationTracker_def)
qed

text \<open>
  \<^verbatim>\<open>free\<close> never touches the records of the tracker: whatever the context and the
  pointer, the records after the call are the records before it.
\<close>

lemma free_keeps_records:
  "dev_to_allocation_info (allocation_tracker (snd (free ctx p)))
     = dev_to_allocation_info (allocation_tracker ctx)"
  by (simp add: free_def getByDevPtr_def releaseMemReservation_def Let_def
        split: option.splits)

text \<open>
  The first \<^verbatim>\<open>free(p)\<close>, issued in the state that \<^verbatim>\<open>allocate\<close> returned with a
  non-null \<open>p\<close>: it returns success, releases the reservation of \<open>size\<close> bytes and
  hands \<open>p\<close> to the native \<^verbatim>\<open>free_\<close> once, and the record for \<open>p\<close> stays.
\<close>

lemma free_after_allocate:
  assumes "within_capacity (allocation_tracker ctx0)"
    and "fst (allocate allocate_impl ctx0 size_a alignment mem_type) = Inr p"
    and "p \<noteq> nullptr"
    and "ctx = snd (allocate allocate_impl ctx0 size_a alignment mem_type)"
  shows "dev_to_allocation_info (allocation_tracker ctx) p
           = Some \<lparr>base_ptr = p, size_bytes = size_a\<rparr>
       \<and> total_mem_used (allocation_tracker ctx)
           = total_mem_used (allocation_tracker ctx0) + size_a
       \<and> fst (free ctx p) = Inr hipSuccess
       \<and> total_mem_used (allocation_tracker (snd (free ctx p)))
           = total_mem_used (allocation_tracker ctx0)
       \<and> native_frees (snd (free ctx p)) = native_frees ctx0 @ [p]
       \<and> dev_to_allocation_info (allocation_tracker (snd (free ctx p))) p
           = Some \<lparr>base_ptr = p, size_bytes = size_a\<rparr>"
proof -
  let ?t0 = "allocation_tracker ctx0"
  from assms(2) have ok: "fst (reserveMem ?t0 size_a) = Inr True"
    by (auto simp add: allocate_def reserveMem_def Let_def split: if_splits)
  then have fits: "size_a \<le> global_mem_size ?t0 - total_mem_used ?t0"
    by (simp add: reserveMem_def split: if_splits)
  from assms(2) assms(3) fits have impl: "allocate_impl size_a alignment mem_type = p"
    by (simp add: allocate_def reserveMem_def Let_def)
  from reserve_no_wrap [OF assms(1) fits] have ge: "size_a \<le> total_mem_used ?t0 + size_a" .
  have rec: "dev_to_allocation_info (allocation_tracker ctx) p
               = Some \<lparr>base_ptr = p, size_bytes = size_a\<rparr>"
    using assms(3) assms(4) fits impl
    by (simp add: allocate_def reserveMem_def Let_def recordAllocation_def)
  have tot: "total_mem_used (allocation_tracker ctx) = total_mem_used ?t0 + size_a"
    using assms(3) assms(4) fits impl
    by (simp add: allocate_def reserveMem_def Let_def recordAllocation_def)
  have frees: "native_frees ctx = native_frees ctx0"
    using assms(3) assms(4) fits impl
    by (simp add: allocate_def reserveMem_def Let_def recordAllocation_def)
  have f1: "fst (free ctx p) = Inr hipSuccess"
    using rec by (simp add: free_def getByDevPtr_def Let_def)
  have f2: "total_mem_used (allocation_tracker (snd (free ctx p))) = total_mem_used ?t0"
    using rec tot ge by (simp add: free_def getByDevPtr_def Let_def releaseMemReservation_def)
  have f3: "native_frees (snd (free ctx p)) = native_frees ctx0 @ [p]"
    using rec frees by (simp add: free_def getByDevPtr_def Let_def)
  have f4: "dev_to_allocation_info (allocation_tracker (snd (free ctx p))) p
              = Some \<lparr>base_ptr = p, size_bytes = size_a\<rparr>"
    using rec by (simp add: free_def getByDevPtr_def Let_def releaseMemReservation_def)
  from rec tot f1 f2 f3 f4 show ?thesis by simp
qed

text \<open>
  C6 fails on the code. Two allocations of 8 bytes, at 4096 and 8192, leave 16 bytes
  reserved. One \<^verbatim>\<open>free(4096)\<close> returns success and releases 8 bytes, but the record
  for 4096 is still in the tracker. A second \<^verbatim>\<open>free(4096)\<close> therefore finds the
  record and returns success again: it releases 8 more bytes, the reservation of the live
  allocation at 8192, and hands 4096 to the native \<^verbatim>\<open>free_\<close> a second time. The
  \<^verbatim>\<open>free(8192)\<close> that follows returns success too, with no reservation left to
  release.
\<close>

theorem double_free_accepted:
  "total_mem_used (allocation_tracker two_allocations) = 16
   \<and> fst (free two_allocations 4096) = Inr hipSuccess
   \<and> total_mem_used (allocation_tracker (snd (free two_allocations 4096))) = 8
   \<and> dev_to_allocation_info (allocation_tracker (snd (free two_allocations 4096))) 4096
       = Some \<lparr>base_ptr = 4096, size_bytes = 8\<rparr>
   \<and> fst (free (snd (free two_allocations 4096)) 4096) = Inr hipSuccess
   \<and> total_mem_used (allocation_tracker (snd (free (snd (free two_allocations 4096)) 4096))) = 0
   \<and> native_frees (snd (free (snd (free two_allocations 4096)) 4096)) = [4096, 4096]
   \<and> dev_to_allocation_info (allocation_tracker (snd (free (snd (free two_allocations 4096)) 4096))) 8192
       = Some \<lparr>base_ptr = 8192, size_bytes = 8\<rparr>
   \<and> fst (free (snd (free (snd (free two_allocations 4096)) 4096)) 8192) = Inr hipSuccess
   \<and> total_mem_used (allocation_tracker
        (snd (free (snd (free (snd (free two_allocations 4096)) 4096)) 8192))) = 0
   \<and> native_frees (snd (free (snd (free (snd (free two_allocations 4096)) 4096)) 8192))
       = [4096, 4096, 8192]"
  by (simp add: two_allocations_def allocate_def free_def getByDevPtr_def reserveMem_def
        releaseMemReservation_def recordAllocation_def new_CHIPContext_def
        new_CHIPAllocationTracker_def nullptr_def Let_def)

section \<open>Properties of the argument buffer\<close>

lemma memcpy_length: "off + length src \<le> length v \<Longrightarrow> length (memcpy v off src) = length v"
  by (simp add: memcpy_def)

lemma memcpy_written: "off + length src \<le> length v \<Longrightarrow> bytes_at (memcpy v off src) off (length src) = src"
  by (simp add: memcpy_def bytes_at_def)

lemma memcpy_preserved_below:
  assumes "off + length src \<le> length v" and "o2 + n2 \<le> off"
  shows "bytes_at (memcpy v off src) o2 n2 = bytes_at v o2 n2"
proof -
  have "take n2 (drop o2 (take off v @ src @ drop (off + length src) v))
        = take n2 (drop o2 (take off v))"
    using assms by simp
  also have "\<dots> = take n2 (take (off - o2) (drop o2 v))"
    by (simp add: drop_take)
  also have "\<dots> = take n2 (drop o2 v)"
    using assms by (simp add: min_def)
  finally show ?thesis by (simp add: memcpy_def bytes_at_def)
qed

lemma memcpy_preserved_above:
  assumes "off + length src \<le> length v" and "off + length src \<le> o2"
  shows "bytes_at (memcpy v off src) o2 n2 = bytes_at v o2 n2"
proof -
  have "drop o2 (take off v @ src @ drop (off + length src) v) = drop o2 v"
    using assms by (simp add: min_def)
  then show ?thesis by (simp add: memcpy_def bytes_at_def)
qed

lemma unat_sums:
  assumes "unat (offset :: size_t) + unat (size_a :: size_t) + 1024 < 2 ^ 64"
  shows "unat (offset + size_a) = unat offset + unat size_a"
    and "unat (offset + size_a + 1024) = unat offset + unat size_a + 1024"
proof -
  show a: "unat (offset + size_a) = unat offset + unat size_a"
    using assms by (simp add: unat_word_ariths)
  have "unat (1024 :: size_t) = 1024" by simp
  with a assms show "unat (offset + size_a + 1024) = unat offset + unat size_a + 1024"
    by (simp add: unat_word_ariths)
qed

lemma resize_grow:
  "length v \<le> n \<Longrightarrow> length (resize v n) = n"
  "length v \<le> n \<Longrightarrow> o2 + n2 \<le> length v \<Longrightarrow> bytes_at (resize v n) o2 n2 = bytes_at v o2 n2"
  by (simp_all add: resize_def bytes_at_def)

lemma setArg_grown:
  "arg_data (setArg ei arg size_a offset)
     = memcpy (grown (arg_data ei) size_a offset) (unat offset) (take (unat size_a) arg)"
  by (simp add: setArg_def grown_def Let_def)

lemma grown_props:
  assumes "unat offset + unat size_a + 1024 < 2 ^ 64"
  shows "unat offset + unat size_a \<le> length (grown v size_a offset)"
    and "length v \<le> length (grown v size_a offset)"
    and "o2 + n2 \<le> length v \<Longrightarrow> bytes_at (grown v size_a offset) o2 n2 = bytes_at v o2 n2"
proof -
  note u = unat_sums [OF assms]
  show "unat offset + unat size_a \<le> length (grown v size_a offset)"
    by (simp add: grown_def u resize_grow)
  show "length v \<le> length (grown v size_a offset)"
    by (simp add: grown_def u resize_grow)
  show "o2 + n2 \<le> length v \<Longrightarrow> bytes_at (grown v size_a offset) o2 n2 = bytes_at v o2 n2"
    by (simp add: grown_def u resize_grow)
qed

lemma setArg_length:
  assumes "fits_size_t (arg, size_a, offset)"
  shows "length (arg_data (setArg ei arg size_a offset)) = length (grown (arg_data ei) size_a offset)"
    and "length (arg_data ei) \<le> length (arg_data (setArg ei arg size_a offset))"
    and "unat offset + unat size_a \<le> length (arg_data (setArg ei arg size_a offset))"
proof -
  from assms have nw: "unat offset + unat size_a + 1024 < 2 ^ 64" and la: "length arg = unat size_a"
    by (simp_all add: fits_size_t_def)
  have le: "unat offset + length (take (unat size_a) arg) \<le> length (grown (arg_data ei) size_a offset)"
    using grown_props(1) [OF nw] la by simp
  show l: "length (arg_data (setArg ei arg size_a offset)) = length (grown (arg_data ei) size_a offset)"
    unfolding setArg_grown by (rule memcpy_length [OF le])
  show "length (arg_data ei) \<le> length (arg_data (setArg ei arg size_a offset))"
    using l grown_props(2) [OF nw] by simp
  show "unat offset + unat size_a \<le> length (arg_data (setArg ei arg size_a offset))"
    using l grown_props(1) [OF nw] by simp
qed

lemma setArg_written:
  assumes "fits_size_t (arg, size_a, offset)"
  shows "bytes_at (arg_data (setArg ei arg size_a offset)) (unat offset) (unat size_a) = arg"
proof -
  from assms have nw: "unat offset + unat size_a + 1024 < 2 ^ 64" and la: "length arg = unat size_a"
    by (simp_all add: fits_size_t_def)
  have le: "unat offset + length (take (unat size_a) arg) \<le> length (grown (arg_data ei) size_a offset)"
    using grown_props(1) [OF nw] la by simp
  from memcpy_written [OF le] la show ?thesis
    by (simp add: setArg_grown)
qed

lemma setArg_preserved:
  assumes "fits_size_t (arg, size_a, offset)"
    and "apart (arg, size_a, offset) o2 n2"
    and "o2 + n2 \<le> length (arg_data ei)"
  shows "bytes_at (arg_data (setArg ei arg size_a offset)) o2 n2 = bytes_at (arg_data ei) o2 n2"
proof -
  from assms(1) have nw: "unat offset + unat size_a + 1024 < 2 ^ 64" and la: "length arg = unat size_a"
    by (simp_all add: fits_size_t_def)
  have le: "unat offset + length (take (unat size_a) arg) \<le> length (grown (arg_data ei) size_a offset)"
    using grown_props(1) [OF nw] la by simp
  from assms(2) have "o2 + n2 \<le> unat offset \<or> unat offset + length (take (unat size_a) arg) \<le> o2"
    using la by (simp add: apart_def)
  then have "bytes_at (memcpy (grown (arg_data ei) size_a offset) (unat offset) (take (unat size_a) arg)) o2 n2
             = bytes_at (grown (arg_data ei) size_a offset) o2 n2"
    using memcpy_preserved_below [OF le] memcpy_preserved_above [OF le] by blast
  with grown_props(3) [OF nw assms(3)] show ?thesis
    by (simp add: setArg_grown)
qed

lemma setArgs_preserved:
  "\<forall>c \<in> set cs. fits_size_t c \<and> apart c o2 n2 \<Longrightarrow> o2 + n2 \<le> length (arg_data ei) \<Longrightarrow>
     o2 + n2 \<le> length (arg_data (setArgs ei cs))
     \<and> bytes_at (arg_data (setArgs ei cs)) o2 n2 = bytes_at (arg_data ei) o2 n2"
proof (induction cs arbitrary: ei)
  case Nil
  then show ?case by simp
next
  case (Cons c cs)
  obtain arg size_a offset where c: "c = (arg, size_a, offset)"
    by (cases c) auto
  from Cons.prems(1) c have f: "fits_size_t (arg, size_a, offset)" and a: "apart (arg, size_a, offset) o2 n2"
    by simp_all
  have len: "o2 + n2 \<le> length (arg_data (setArg ei arg size_a offset))"
    using setArg_length(2) [OF f, of ei] Cons.prems(2) by simp
  have rest: "\<forall>c \<in> set cs. fits_size_t c \<and> apart c o2 n2"
    using Cons.prems(1) by simp
  from Cons.IH [OF rest len] setArg_preserved [OF f a Cons.prems(2)] c
  show ?case by simp
qed

lemma setArgs_roundtrip:
  "\<forall>c \<in> set cs. fits_size_t c \<Longrightarrow> pairwise_apart cs \<Longrightarrow> (arg, size_a, offset) \<in> set cs \<Longrightarrow>
     unat offset + unat size_a \<le> length (arg_data (setArgs ei cs))
     \<and> bytes_at (arg_data (setArgs ei cs)) (unat offset) (unat size_a) = arg"
proof (induction cs arbitrary: ei)
  case Nil
  then show ?case by simp
next
  case (Cons c cs)
  obtain arg' size' offset' where c: "c = (arg', size', offset')"
    by (cases c) auto
  from Cons.prems(1) c have f: "fits_size_t (arg', size', offset')"
    by simp
  have fs: "\<forall>c \<in> set cs. fits_size_t c"
    using Cons.prems(1) by simp
  from Cons.prems(2) c have ap: "\<forall>d \<in> set cs. apart d (unat offset') (unat size')"
    and pw: "pairwise_apart cs"
    by simp_all
  from Cons.prems(3) c
  have "(arg, size_a, offset) = (arg', size', offset') \<or> (arg, size_a, offset) \<in> set cs"
    by auto
  then show ?case
  proof
    assume "(arg, size_a, offset) = (arg', size', offset')"
    then have eq: "arg' = arg" "size' = size_a" "offset' = offset" by simp_all
    have "\<forall>c \<in> set cs. fits_size_t c \<and> apart c (unat offset) (unat size_a)"
      using fs ap eq by simp
    from setArgs_preserved [OF this, of "setArg ei arg size_a offset"]
      setArg_length(3) [OF f, of ei] setArg_written [OF f, of ei] eq c
    show ?thesis by simp
  next
    assume "(arg, size_a, offset) \<in> set cs"
    from Cons.IH [OF fs pw this, of "setArg ei arg' size' offset'"] c
    show ?thesis by simp
  qed
qed

text \<open>
  C8. Three arguments of 4, 8 and 4 bytes are set with \<^verbatim>\<open>setArg\<close> at offsets 0, 8
  and 16, in any of the six orders, on any exec item. The buffer read back with
  \<^verbatim>\<open>getArgData\<close> then has at least 20 bytes and holds each argument's bytes at its
  offset, whatever the order was.
\<close>

theorem setArg_roundtrip_any_order:
  assumes "length a0 = 4" and "length a1 = 8" and "length a2 = 4"
    and "calls \<in> {[(a0, 4, 0), (a1, 8, 8), (a2, 4, 16)], [(a0, 4, 0), (a2, 4, 16), (a1, 8, 8)],
                   [(a1, 8, 8), (a0, 4, 0), (a2, 4, 16)], [(a1, 8, 8), (a2, 4, 16), (a0, 4, 0)],
                   [(a2, 4, 16), (a0, 4, 0), (a1, 8, 8)], [(a2, 4, 16), (a1, 8, 8), (a0, 4, 0)]}"
  shows "20 \<le> length (getArgData (setArgs ei calls))
       \<and> bytes_at (getArgData (setArgs ei calls)) 0 4 = a0
       \<and> bytes_at (getArgData (setArgs ei calls)) 8 8 = a1
       \<and> bytes_at (getArgData (setArgs ei calls)) 16 4 = a2"
proof -
  have fits: "\<forall>c \<in> set calls. fits_size_t c"
    using assms by (auto simp add: fits_size_t_def)
  have pw: "pairwise_apart calls"
    using assms(4) by (auto simp add: apart_def)
  have mem: "(a0, 4, 0) \<in> set calls" "(a1, 8, 8) \<in> set calls" "(a2, 4, 16) \<in> set calls"
    using assms(4) by auto
  from setArgs_roundtrip [OF fits pw mem(1), of ei]
       setArgs_roundtrip [OF fits pw mem(2), of ei]
       setArgs_roundtrip [OF fits pw mem(3), of ei]
  show ?thesis by (simp add: getArgData_def)
qed

theorem setArg_roundtrip_any_order_witness:
  "length [1, 2, 3, 4 :: uint8_t] = 4 \<and> length [5, 6, 7, 8, 9, 10, 11, 12 :: uint8_t] = 8
   \<and> length [13, 14, 15, 16 :: uint8_t] = 4
   \<and> bytes_at (getArgData (setArgs (new_CHIPExecItem one_dim3 one_dim3 0 0)
        [([13, 14, 15, 16], 4, 16), ([1, 2, 3, 4], 4, 0), ([5, 6, 7, 8, 9, 10, 11, 12], 8, 8)])) 0 4
       = [1, 2, 3, 4]
   \<and> bytes_at (getArgData (setArgs (new_CHIPExecItem one_dim3 one_dim3 0 0)
        [([13, 14, 15, 16], 4, 16), ([1, 2, 3, 4], 4, 0), ([5, 6, 7, 8, 9, 10, 11, 12], 8, 8)])) 8 8
       = [5, 6, 7, 8, 9, 10, 11, 12]
   \<and> bytes_at (getArgData (setArgs (new_CHIPExecItem one_dim3 one_dim3 0 0)
        [([13, 14, 15, 16], 4, 16), ([1, 2, 3, 4], 4, 0), ([5, 6, 7, 8, 9, 10, 11, 12], 8, 8)])) 16 4
       = [13, 14, 15, 16]
   \<and> length (getArgData (setArgs (new_CHIPExecItem one_dim3 one_dim3 0 0)
        [([13, 14, 15, 16], 4, 16), ([1, 2, 3, 4], 4, 0), ([5, 6, 7, 8, 9, 10, 11, 12], 8, 8)])) = 1044"
  using setArg_roundtrip_any_order
     [where ?a0.0 = "[1, 2, 3, 4]" and ?a1.0 = "[5, 6, 7, 8, 9, 10, 11, 12]"
        and ?a2.0 = "[13, 14, 15, 16]" and ei = "new_CHIPExecItem one_dim3 one_dim3 0 0"
        and calls = "[([13, 14, 15, 16], 4, 16), ([1, 2, 3, 4], 4, 0), ([5, 6, 7, 8, 9, 10, 11, 12], 8, 8)]"]
  by (simp add: getArgData_def setArg_def resize_def memcpy_def new_CHIPExecItem_def Let_def)

section \<open>Properties of device selection\<close>

lemma foldl_count_field:
  "foldl count_field (v, m) cs
     = (v + int (length (filter fst cs)), m + int (length (filter (\<lambda>c. fst c \<and> snd c) cs)))"
  by (induction cs arbitrary: v m) (auto)

lemma met_le_requested:
  "length (filter (\<lambda>c. fst c \<and> snd c) cs) \<le> length (filter fst cs)"
  by (induction cs) auto

lemma met_eq_requested:
  "length (filter (\<lambda>c. fst c \<and> snd c) cs) = length (filter fst cs)
     \<longleftrightarrow> (\<forall>(requested, met) \<in> set cs. requested \<longrightarrow> met)"
proof (induction cs)
  case Nil
  then show ?case by simp
next
  case (Cons c cs)
  from met_le_requested [of cs] Cons show ?case
    by (cases c) auto
qed

lemma counts_equal_iff:
  "validPropCount properties dev = matchedCount properties dev \<longleftrightarrow> meets_requested properties dev"
proof -
  have "validPropCount properties dev = matchedCount properties dev
        \<longleftrightarrow> length (filter (\<lambda>c. fst c \<and> snd c) (field_checks properties (hip_device_props dev)))
            = length (filter fst (field_checks properties (hip_device_props dev)))"
    by (auto simp add: validPropCount_def matchedCount_def prop_counts_def foldl_count_field)
  then show ?thesis
    by (simp only: met_eq_requested meets_requested_def)
qed

lemma matched_le_valid:
  "matchedCount properties dev \<le> validPropCount properties dev"
  using met_le_requested [of "field_checks properties (hip_device_props dev)"]
  by (simp add: validPropCount_def matchedCount_def prop_counts_def foldl_count_field)

lemma requested_same:
  "map fst (field_checks properties currentProp) = map fst (field_checks properties currentProp')"
  by (simp add: field_checks_def)

lemma validPropCount_same:
  "validPropCount properties dev = validPropCount properties dev'"
proof -
  have len: "length (filter fst cs) = length (filter id (map fst cs))"
    for cs :: "(bool \<times> bool) list"
    by (simp add: filter_map comp_def)
  have "length (filter fst (field_checks properties (hip_device_props dev)))
           = length (filter fst (field_checks properties (hip_device_props dev')))"
    unfolding len
    using requested_same [of properties "hip_device_props dev" "hip_device_props dev'"]
    by (rule arg_cong)
  then show ?thesis
    by (simp add: validPropCount_def prop_counts_def foldl_count_field)
qed

lemma match_loop_step:
  "match_loop properties (dev # devs) (md, mx) =
     match_loop properties devs
       (if validPropCount properties dev = matchedCount properties dev
        then (if matchedCount properties dev > mx then Pointer dev else md,
              max (matchedCount properties dev) mx)
        else (md, mx))"
  by (simp add: validPropCount_def matchedCount_def split: prod.splits)

lemma match_loop_none:
  "\<forall>d \<in> set devs. \<not> meets_requested properties d \<Longrightarrow>
     match_loop properties devs (md, mx) = (md, mx)"
proof (induction devs)
  case Nil
  then show ?case by simp
next
  case (Cons dev devs)
  from Cons.prems have "\<not> meets_requested properties dev" by simp
  then have ne: "validPropCount properties dev \<noteq> matchedCount properties dev"
    by (simp add: counts_equal_iff)
  from Cons.prems have "\<forall>d \<in> set devs. \<not> meets_requested properties d" by simp
  from Cons.IH [OF this] ne show ?case
    by (simp only: match_loop_step if_False)
qed

lemma match_loop_settled:
  "\<forall>d \<in> set devs. matchedCount properties d \<le> mx \<Longrightarrow>
     match_loop properties devs (md, mx) = (md, mx)"
proof (induction devs)
  case Nil
  then show ?case by simp
next
  case (Cons dev devs)
  from Cons.prems have le: "matchedCount properties dev \<le> mx" by simp
  from Cons.prems have "\<forall>d \<in> set devs. matchedCount properties d \<le> mx" by simp
  from Cons.IH [OF this] le show ?case
    by (simp add: match_loop_step max_def del: match_loop.simps)
qed

lemma match_loop_first:
  assumes "find (meets_requested properties) devs = Some d"
    and "0 < validPropCount properties d"
  shows "match_loop properties devs (md, 0) = (Pointer d, validPropCount properties d)"
  using assms
proof (induction devs)
  case Nil
  then show ?case by simp
next
  case (Cons dev devs)
  show ?case
  proof (cases "meets_requested properties dev")
    case True
    with Cons.prems(1) have d: "dev = d" by simp
    from True d have eq: "validPropCount properties d = matchedCount properties d"
      by (simp add: counts_equal_iff)
    have "\<forall>d' \<in> set devs. matchedCount properties d' \<le> validPropCount properties d"
      using matched_le_valid validPropCount_same [of properties _ d] by metis
    from match_loop_settled [OF this, of "Pointer d"] eq Cons.prems(2) d
    show ?thesis
      by (simp add: match_loop_step max_def del: match_loop.simps)
  next
    case False
    with Cons.prems(1) have f: "find (meets_requested properties) devs = Some d" by simp
    from False have ne: "validPropCount properties dev \<noteq> matchedCount properties dev"
      by (simp add: counts_equal_iff)
    from Cons.IH [OF f Cons.prems(2)] ne show ?thesis
      by (simp add: match_loop_step del: match_loop.simps)
  qed
qed

lemma only_major_counts:
  "prop_counts (no_request\<lparr>major := 3\<rparr>) currentProp
     = (1, if 3 \<le> sint (major currentProp) then 1 else 0)"
  by (simp add: prop_counts_def field_checks_def no_request_def)

lemma only_major_meets:
  "meets_requested (no_request\<lparr>major := 3\<rparr>) dev \<longleftrightarrow> 3 \<le> sint (major (hip_device_props dev))"
  using counts_equal_iff [of "no_request\<lparr>major := 3\<rparr>" dev]
  by (auto simp add: validPropCount_def matchedCount_def only_major_counts split: if_splits)

text \<open>
  When no device meets the request, or the request names no field, the loop never assigns
  \<open>matched_device\<close>: what is returned is the indeterminate initial value.
\<close>

lemma findDeviceMatchingProps_unassigned:
  "\<forall>d \<in> set chip_devices. \<not> meets_requested properties d \<Longrightarrow>
     findDeviceMatchingProps properties chip_devices = Indeterminate"
  by (simp add: findDeviceMatchingProps_def match_loop_none)

lemma findDeviceMatchingProps_no_field:
  "findDeviceMatchingProps no_request chip_devices = Indeterminate"
proof -
  have "matchedCount no_request d \<le> 0" for d
    by (simp add: matchedCount_def prop_counts_def field_checks_def no_request_def)
  then have "match_loop no_request chip_devices (Indeterminate, 0) = (Indeterminate, 0)"
    by (simp add: match_loop_settled)
  then show ?thesis
    by (simp add: findDeviceMatchingProps_def)
qed

text \<open>
  C2, as the code has it. When the request names at least one field and some device
  meets every requested field, \<^verbatim>\<open>findDeviceMatchingProps\<close> returns the first such
  device in the order of \<^verbatim>\<open>chip_devices\<close>. That device meets every requested field,
  no device of the backend has a higher count of met fields, and no device that fails a
  requested field is returned. For a request with only \<open>major = 3\<close>, the result is the
  first device in backend order whose \<open>major\<close> is at least 3.
\<close>

theorem findDeviceMatchingProps_first_qualifying:
  "(find (meets_requested properties) chip_devices = Some d \<and> 0 < validPropCount properties d \<longrightarrow>
      findDeviceMatchingProps properties chip_devices = Pointer d
      \<and> meets_requested properties d
      \<and> (\<forall>d' \<in> set chip_devices. matchedCount properties d' \<le> matchedCount properties d)
      \<and> (\<forall>d' \<in> set chip_devices. \<not> meets_requested properties d' \<longrightarrow>
            findDeviceMatchingProps properties chip_devices \<noteq> Pointer d'))
   \<and> (find (\<lambda>dev. 3 \<le> sint (major (hip_device_props dev))) chip_devices = Some d \<longrightarrow>
      findDeviceMatchingProps (no_request\<lparr>major := 3\<rparr>) chip_devices = Pointer d)"
proof (intro conjI impI)
  assume a: "find (meets_requested properties) chip_devices = Some d \<and> 0 < validPropCount properties d"
  then have f: "find (meets_requested properties) chip_devices = Some d"
    and v: "0 < validPropCount properties d" by simp_all
  from match_loop_first [OF f v]
  show r: "findDeviceMatchingProps properties chip_devices = Pointer d"
    by (simp add: findDeviceMatchingProps_def)
  from f show m: "meets_requested properties d"
    by (auto simp add: find_Some_iff)
  then have eq: "validPropCount properties d = matchedCount properties d"
    by (simp add: counts_equal_iff)
  show "\<forall>d' \<in> set chip_devices. matchedCount properties d' \<le> matchedCount properties d"
    using matched_le_valid validPropCount_same [of properties _ d] eq by metis
  show "\<forall>d' \<in> set chip_devices. \<not> meets_requested properties d' \<longrightarrow>
            findDeviceMatchingProps properties chip_devices \<noteq> Pointer d'"
    using r m by auto
next
  assume "find (\<lambda>dev. 3 \<le> sint (major (hip_device_props dev))) chip_devices = Some d"
  moreover have "meets_requested (no_request\<lparr>major := 3\<rparr>)
                   = (\<lambda>dev. 3 \<le> sint (major (hip_device_props dev)))"
    by (rule ext) (simp add: only_major_meets)
  ultimately have f: "find (meets_requested (no_request\<lparr>major := 3\<rparr>)) chip_devices = Some d"
    by simp
  have v: "0 < validPropCount (no_request\<lparr>major := 3\<rparr>) d"
    by (simp add: validPropCount_def only_major_counts)
  from match_loop_first [OF f v]
  show "findDeviceMatchingProps (no_request\<lparr>major := 3\<rparr>) chip_devices = Pointer d"
    by (simp add: findDeviceMatchingProps_def)
qed

theorem findDeviceMatchingProps_first_qualifying_witness:
  "find (meets_requested (no_request\<lparr>major := 3\<rparr>))
       [device_with_major 0 2, device_with_major 1 5, device_with_major 2 3]
     = Some (device_with_major 1 5)
   \<and> 0 < validPropCount (no_request\<lparr>major := 3\<rparr>) (device_with_major 1 5)
   \<and> find (\<lambda>dev. 3 \<le> sint (major (hip_device_props dev)))
       [device_with_major 0 2, device_with_major 1 5, device_with_major 2 3]
     = Some (device_with_major 1 5)
   \<and> device_with_major 0 2 \<in> set [device_with_major 0 2, device_with_major 1 5, device_with_major 2 3]
   \<and> \<not> meets_requested (no_request\<lparr>major := 3\<rparr>) (device_with_major 0 2)
   \<and> findDeviceMatchingProps (no_request\<lparr>major := 3\<rparr>)
       [device_with_major 0 2, device_with_major 1 5, device_with_major 2 3]
     = Pointer (device_with_major 1 5)
   \<and> findDeviceMatchingProps (no_request\<lparr>major := 3\<rparr>)
       [device_with_major 0 2, device_with_major 1 5, device_with_major 2 3]
     \<noteq> Pointer (device_with_major 0 2)"
proof -
  have m: "meets_requested (no_request\<lparr>major := 3\<rparr>) (device_with_major i k) \<longleftrightarrow> 3 \<le> sint k"
    for i k
    by (simp add: only_major_meets device_with_major_def)
  have f: "find (meets_requested (no_request\<lparr>major := 3\<rparr>))
       [device_with_major 0 2, device_with_major 1 5, device_with_major 2 3]
     = Some (device_with_major 1 5)"
    by (simp add: m)
  have v: "0 < validPropCount (no_request\<lparr>major := 3\<rparr>) (device_with_major 1 5)"
    by (simp add: validPropCount_def only_major_counts)
  have g: "find (\<lambda>dev. 3 \<le> sint (major (hip_device_props dev)))
       [device_with_major 0 2, device_with_major 1 5, device_with_major 2 3]
     = Some (device_with_major 1 5)"
    by (simp add: device_with_major_def)
  have n: "\<not> meets_requested (no_request\<lparr>major := 3\<rparr>) (device_with_major 0 2)"
    by (simp add: m)
  from findDeviceMatchingProps_first_qualifying
         [where properties = "no_request\<lparr>major := 3\<rparr>" and d = "device_with_major 1 5"
            and chip_devices = "[device_with_major 0 2, device_with_major 1 5, device_with_major 2 3]"]
       f v g n
  show ?thesis by (simp add: device_with_major_def)
qed

text \<open>
  C2, as the claim states it, fails. With devices of \<open>major\<close> 5 and 3, in this order,
  and a request for \<open>major = 3\<close> only, both devices qualify with the same score; the
  code returns the first one, of \<open>major\<close> 5, not the one with the lowest \<open>major\<close>.
\<close>

theorem findDeviceMatchingProps_not_lowest_major:
  "findDeviceMatchingProps (no_request\<lparr>major := 3\<rparr>) [device_with_major 0 5, device_with_major 1 3]
     = Pointer (device_with_major 0 5)
   \<and> device_with_major 1 3 \<in> set [device_with_major 0 5, device_with_major 1 3]
   \<and> meets_requested (no_request\<lparr>major := 3\<rparr>) (device_with_major 1 3)
   \<and> sint (major (hip_device_props (device_with_major 1 3)))
       < sint (major (hip_device_props (device_with_major 0 5)))"
proof -
  have "findDeviceMatchingProps (no_request\<lparr>major := 3\<rparr>) [device_with_major 0 5, device_with_major 1 3]
     = Pointer (device_with_major 0 5)"
    by (simp add: findDeviceMatchingProps_def only_major_counts device_with_major_def)
  moreover have "meets_requested (no_request\<lparr>major := 3\<rparr>) (device_with_major 1 3)"
    by (simp add: only_major_meets device_with_major_def)
  moreover have "sint (major (hip_device_props (device_with_major 1 3)))
       < sint (major (hip_device_props (device_with_major 0 5)))"
    by (simp add: device_with_major_def)
  ultimately show ?thesis by simp
qed

section \<open>Properties of events\<close>

lemma doActions_finished:
  "isFinished ev \<Longrightarrow>
     doActions NDEBUG ev executed = Inr (ev\<lparr>Actions := []\<rparr>, executed @ Actions ev)"
  by (simp add: doActions_def)

lemma isFinished_Actions_update:
  "isFinished (ev\<lparr>Actions := acts\<rparr>) = isFinished ev"
  by (simp add: isFinished_def)

text \<open>
  On a finished event no call aborts, and no action is lost or called twice: what has
  been called, followed by what is still in the list, is what had been called before,
  what was in the list and what the calls attached, in this order.
\<close>

lemma event_calls_finished:
  "isFinished ev \<Longrightarrow>
     \<exists>pending called. event_calls NDEBUG (ev, executed) calls = Inr (ev\<lparr>Actions := pending\<rparr>, called)
        \<and> called @ pending = executed @ Actions ev @ attached calls"
proof (induction calls arbitrary: ev executed)
  case Nil
  have "event_calls NDEBUG (ev, executed) [] = Inr (ev\<lparr>Actions := Actions ev\<rparr>, executed)"
    by simp
  then show ?case by auto
next
  case (Cons c calls)
  show ?case
  proof (cases c)
    case (AddAction a)
    have fin: "isFinished (addAction ev a)"
      using Cons.prems by (simp add: addAction_def isFinished_def)
    from Cons.IH [OF fin, of executed] obtain pending done_acts where
      r: "event_calls NDEBUG (addAction ev a, executed) calls
            = Inr ((addAction ev a)\<lparr>Actions := pending\<rparr>, done_acts)"
      and e: "done_acts @ pending = executed @ Actions (addAction ev a) @ attached calls"
      by blast
    from r have "event_calls NDEBUG (ev, executed) (c # calls)
                   = Inr (ev\<lparr>Actions := pending\<rparr>, done_acts)"
      using AddAction by (simp add: addAction_def)
    moreover from e have "done_acts @ pending = executed @ Actions ev @ attached (c # calls)"
      using AddAction by (simp add: addAction_def)
    ultimately show ?thesis by blast
  next
    case DoActions
    have fin: "isFinished (ev\<lparr>Actions := []\<rparr>)"
      using Cons.prems by (simp add: isFinished_def)
    from Cons.IH [OF fin, of "executed @ Actions ev"] obtain pending done_acts where
      r: "event_calls NDEBUG (ev\<lparr>Actions := []\<rparr>, executed @ Actions ev) calls
            = Inr (ev\<lparr>Actions := [], Actions := pending\<rparr>, done_acts)"
      and e: "done_acts @ pending
                = (executed @ Actions ev) @ Actions (ev\<lparr>Actions := []\<rparr>) @ attached calls"
      by blast
    from r have "event_calls NDEBUG (ev, executed) (c # calls)
                   = Inr (ev\<lparr>Actions := pending\<rparr>, done_acts)"
      using DoActions Cons.prems by (simp add: doActions_finished)
    moreover from e have "done_acts @ pending = executed @ Actions ev @ attached (c # calls)"
      using DoActions by simp
    ultimately show ?thesis by blast
  qed
qed

lemma event_calls_append:
  "event_calls NDEBUG st (calls @ rest) =
     (case event_calls NDEBUG st calls of
        Inl err \<Rightarrow> Inl err
      | Inr st1 \<Rightarrow> event_calls NDEBUG st1 rest)"
proof (induction calls arbitrary: st)
  case Nil
  then show ?case by simp
next
  case (Cons c calls)
  obtain ev executed where st: "st = (ev, executed)" by (cases st)
  show ?case
  proof (cases c)
    case (AddAction a)
    with Cons.IH st show ?thesis by simp
  next
    case DoActions
    with Cons.IH st show ?thesis
      by (cases "doActions NDEBUG ev executed") simp_all
  qed
qed

lemma event_calls_then_doActions:
  assumes "isFinished ev"
  shows "event_calls NDEBUG (ev, executed) (calls @ [DoActions])
           = Inr (ev\<lparr>Actions := []\<rparr>, executed @ Actions ev @ attached calls)"
proof -
  from event_calls_finished [OF assms, of NDEBUG executed calls] obtain pending done_acts where
    r: "event_calls NDEBUG (ev, executed) calls = Inr (ev\<lparr>Actions := pending\<rparr>, done_acts)"
    and e: "done_acts @ pending = executed @ Actions ev @ attached calls"
    by blast
  have fin: "isFinished (ev\<lparr>Actions := pending\<rparr>)"
    using assms by (simp add: isFinished_def)
  from r e doActions_finished [OF fin, of NDEBUG done_acts] show ?thesis
    by (simp add: event_calls_append)
qed

text \<open>
  C7, as the claim states it, fails. \<^verbatim>\<open>recordStream\<close> on an event whose status is
  COMPLETE, with a queue that has a last event, sets the status back to RECORDING. And
  in a build without assertions, \<^verbatim>\<open>doActions\<close> on an event that is still recording
  calls the action attached to it: the action runs before the event is COMPLETE.
\<close>

theorem complete_reverts_and_unfinished_runs_actions:
  "event_status complete_event = EVENT_STATUS_COMPLETE
   \<and> recordStream copy_msg complete_event (Some last_event_of_queue)
       = Inr \<lparr> event_status = EVENT_STATUS_RECORDING, msg = ''launch'' \<rparr>
   \<and> \<not> isFinished (addAction recording_event 1)
   \<and> doActions True (addAction recording_event 1) [] = Inr (recording_event, [1])"
  by (simp add: recordStream_def complete_event_def last_event_of_queue_def copy_msg_def
        doActions_def addAction_def recording_event_def isFinished_def)

text \<open>
  C7, as the code has it. \<^verbatim>\<open>recordStream\<close> on a queue with a last event leaves the
  event in RECORDING, whatever its status was. On a finished event, in either build and
  for every sequence of \<^verbatim>\<open>addAction\<close> and \<^verbatim>\<open>doActions\<close> calls, every action that
  has been attached has been called once or is still in the list, none twice; and once
  \<^verbatim>\<open>doActions\<close> is called after them, every attached action has been called exactly
  once, in attachment order, and the list is empty. That the event is finished is only
  asserted: with assertions, \<^verbatim>\<open>doActions\<close> on an event that is not finished aborts and
  calls no action; without them, it calls the actions whatever the status is.
\<close>

theorem recordStream_sets_recording_actions_run_once:
  "(\<exists>ev'. recordStream takeOver this (Some other) = Inr ev'
          \<and> event_status ev' = EVENT_STATUS_RECORDING)
   \<and> (isFinished ev \<longrightarrow>
        (\<exists>pending called. event_calls NDEBUG (ev, executed) calls
                           = Inr (ev\<lparr>Actions := pending\<rparr>, called)
            \<and> called @ pending = executed @ Actions ev @ attached calls)
        \<and> event_calls NDEBUG (ev, executed) (calls @ [DoActions])
            = Inr (ev\<lparr>Actions := []\<rparr>, executed @ Actions ev @ attached calls))
   \<and> (\<not> NDEBUG \<and> \<not> isFinished ev \<longrightarrow> doActions NDEBUG ev executed = Inl AssertionFailed)
   \<and> (NDEBUG \<longrightarrow> doActions NDEBUG ev executed = Inr (ev\<lparr>Actions := []\<rparr>, executed @ Actions ev))"
proof (intro conjI impI)
  show "\<exists>ev'. recordStream takeOver this (Some other) = Inr ev'
          \<and> event_status ev' = EVENT_STATUS_RECORDING"
    by (simp add: recordStream_def)
next
  assume "isFinished ev"
  then show "\<exists>pending called. event_calls NDEBUG (ev, executed) calls
                           = Inr (ev\<lparr>Actions := pending\<rparr>, called)
            \<and> called @ pending = executed @ Actions ev @ attached calls"
    by (rule event_calls_finished)
next
  assume "isFinished ev"
  then show "event_calls NDEBUG (ev, executed) (calls @ [DoActions])
            = Inr (ev\<lparr>Actions := []\<rparr>, executed @ Actions ev @ attached calls)"
    by (rule event_calls_then_doActions)
next
  assume "\<not> NDEBUG \<and> \<not> isFinished ev"
  then show "doActions NDEBUG ev executed = Inl AssertionFailed"
    by (simp add: doActions_def)
next
  assume NDEBUG
  then show "doActions NDEBUG ev executed = Inr (ev\<lparr>Actions := []\<rparr>, executed @ Actions ev)"
    by (simp add: doActions_def)
qed

theorem recordStream_sets_recording_actions_run_once_witness:
  "isFinished finished_event
   \<and> event_calls False (finished_event, [])
        [AddAction 1, AddAction 2, DoActions, AddAction 3, DoActions, DoActions]
       = Inr (finished_event, [1, 2, 3])
   \<and> event_calls False (finished_event, []) [AddAction 1, DoActions, AddAction 2]
       = Inr (finished_event\<lparr>Actions := [2]\<rparr>, [1])
   \<and> \<not> False \<and> \<not> isFinished (addAction recording_event 1)
   \<and> doActions False (addAction recording_event 1) [] = Inl AssertionFailed
   \<and> doActions True (addAction recording_event 1) [] = Inr (recording_event, [1])
   \<and> event_status complete_event = EVENT_STATUS_COMPLETE
   \<and> map_sum id event_status (recordStream copy_msg complete_event (Some last_event_of_queue))
       = Inr EVENT_STATUS_RECORDING"
proof -
  have fin: "isFinished finished_event"
    by (simp add: isFinished_def finished_event_def)
  have unfin: "\<not> isFinished (addAction recording_event 1)"
    by (simp add: isFinished_def addAction_def recording_event_def)
  have a0: "Actions finished_event = []" "finished_event\<lparr>Actions := []\<rparr> = finished_event"
    by (simp_all add: finished_event_def)
  from recordStream_sets_recording_actions_run_once
         [where ev = finished_event and NDEBUG = False and executed = "[]"
            and calls = "[AddAction 1, AddAction 2, DoActions, AddAction 3, DoActions]"
            and takeOver = copy_msg and this = complete_event and other = last_event_of_queue]
       fin a0
  have w1: "event_calls False (finished_event, [])
              [AddAction 1, AddAction 2, DoActions, AddAction 3, DoActions, DoActions]
            = Inr (finished_event, [1, 2, 3])"
    and w4: "map_sum id event_status
               (recordStream copy_msg complete_event (Some last_event_of_queue))
             = Inr EVENT_STATUS_RECORDING"
    by auto
  have w2: "event_calls False (finished_event, []) [AddAction 1, DoActions, AddAction 2]
              = Inr (finished_event\<lparr>Actions := [2]\<rparr>, [1])"
    by (simp add: doActions_def addAction_def isFinished_def finished_event_def)
  from recordStream_sets_recording_actions_run_once
         [where ev = "addAction recording_event 1" and NDEBUG = False and executed = "[]"
            and calls = "[]"
            and takeOver = copy_msg and this = complete_event and other = last_event_of_queue]
       unfin
  have w3: "doActions False (addAction recording_event 1) [] = Inl AssertionFailed"
    by simp
  from recordStream_sets_recording_actions_run_once
         [where ev = "addAction recording_event 1" and NDEBUG = True and executed = "[]"
            and calls = "[]"
            and takeOver = copy_msg and this = complete_event and other = last_event_of_queue]
  have w5: "doActions True (addAction recording_event 1) [] = Inr (recording_event, [1])"
    by (simp add: addAction_def recording_event_def)
  have w6: "event_status complete_event = EVENT_STATUS_COMPLETE"
    by (simp add: complete_event_def)
  from fin w1 w2 unfin w3 w5 w6 w4 show ?thesis by simp
qed

section \<open>Properties of the device-variable lifecycle\<close>

text \<open>
  With one variable, the three phases run: the info kernel, the copy and a
  \<^verbatim>\<open>finish\<close>; the bind kernel and a \<^verbatim>\<open>finish\<close>; the init kernel and a
  \<^verbatim>\<open>finish\<close>.
\<close>

lemma one_variable_runs_shadow_kernels:
  "map_sum id (\<lambda>rt. (queue_ops rt, chip_vars (chip_module rt),
                       DeviceVariablesAllocated (chip_module rt),
                       DeviceVariablesInitialized (chip_module rt)))
     (initializeDeviceVariablesNoLock memory_at_1024 info_16_8_init (runtime_of one_var_module))
   = Inr ([Launch ''__chip_var_info_v'', MemCopyAsync 24, Finish,
           Launch ''__chip_var_bind_v'', Finish,
           Launch ''__chip_var_init_v'', Finish],
          [\<lparr> Name = ''v'', Size = 16, DevAddr = 1024, HasInitializer = True \<rparr>],
          True, True)"
  by (simp add: initializeDeviceVariablesNoLock_def allocateDeviceVariablesNoLock_def
        runtime_of_def one_var_module_def new_CHIPDeviceVar_def memory_at_1024_def
        info_16_8_init_def ctx_allocate_def allocate_def reserveMem_def recordAllocation_def
        new_CHIPContext_def new_CHIPAllocationTracker_def queueVariableInfoShadowKernel_def
        queueVariableBindShadowKernel_def queueVariableInitShadowKernel_def getKernel_def
        queueKernel_def finish_def memCopyAsync_def sizeof_CHIPVarInfo_def
        ChipVarInfoPrefix_def ChipVarBindPrefix_def ChipVarInitPrefix_def nullptr_def Let_def)

text \<open>
  C9, as the code has it. On a module without device variables,
  \<^verbatim>\<open>allocateDeviceVariablesNoLock\<close> returns \<open>hipSuccess\<close> and sets only
  \<open>DeviceVariablesAllocated\<close>; \<^verbatim>\<open>initializeDeviceVariablesNoLock\<close> sets both flags.
  Neither changes anything else: nothing is submitted to the queue (no shadow kernel, no
  \<^verbatim>\<open>finish\<close>) and nothing is allocated.
\<close>

theorem no_variables_allocated_and_initialized:
  assumes "chip_vars (chip_module rt) = []"
  shows "allocateDeviceVariablesNoLock allocate_impl read_back rt
           = Inr (hipSuccess,
                  rt\<lparr>chip_module := (chip_module rt)\<lparr>DeviceVariablesAllocated := True\<rparr>\<rparr>)
       \<and> initializeDeviceVariablesNoLock allocate_impl read_back rt
           = Inr (rt\<lparr>chip_module := (chip_module rt)
                       \<lparr>DeviceVariablesAllocated := True, DeviceVariablesInitialized := True\<rparr>\<rparr>)"
proof -
  have a: "allocateDeviceVariablesNoLock allocate_impl read_back rt
           = Inr (hipSuccess,
                  rt\<lparr>chip_module := (chip_module rt)\<lparr>DeviceVariablesAllocated := True\<rparr>\<rparr>)"
    using assms by (simp add: allocateDeviceVariablesNoLock_def Let_def)
  show ?thesis
    using assms by (simp add: a initializeDeviceVariablesNoLock_def Let_def)
qed

theorem no_variables_allocated_and_initialized_witness:
  "chip_vars (chip_module (runtime_of empty_module)) = []
   \<and> allocateDeviceVariablesNoLock no_memory no_info (runtime_of empty_module)
       = Inr (hipSuccess, runtime_of (empty_module\<lparr>DeviceVariablesAllocated := True\<rparr>))
   \<and> initializeDeviceVariablesNoLock no_memory no_info (runtime_of empty_module)
       = Inr (runtime_of (empty_module
                \<lparr>DeviceVariablesAllocated := True, DeviceVariablesInitialized := True\<rparr>))
   \<and> queue_ops (runtime_of (empty_module
                \<lparr>DeviceVariablesAllocated := True, DeviceVariablesInitialized := True\<rparr>)) = []"
proof -
  have e: "chip_vars (chip_module (runtime_of empty_module)) = []"
    by (simp add: runtime_of_def empty_module_def)
  from no_variables_allocated_and_initialized [OF e, of no_memory no_info] e
  show ?thesis by (simp add: runtime_of_def)
qed

text \<open>
  C9, as the claim states it, fails for \<^verbatim>\<open>allocateDeviceVariablesNoLock\<close>: on a module
  without variables that is not yet initialized, the call returns success and marks the
  module allocated, but \<open>DeviceVariablesInitialized\<close> stays false.
\<close>

theorem allocate_alone_leaves_uninitialized:
  "chip_vars empty_module = []
   \<and> \<not> DeviceVariablesInitialized empty_module
   \<and> allocateDeviceVariablesNoLock no_memory no_info (runtime_of empty_module)
       = Inr (hipSuccess, runtime_of (empty_module\<lparr>DeviceVariablesAllocated := True\<rparr>))
   \<and> \<not> DeviceVariablesInitialized
         (chip_module (runtime_of (empty_module\<lparr>DeviceVariablesAllocated := True\<rparr>)))"
  by (simp add: allocateDeviceVariablesNoLock_def runtime_of_def empty_module_def Let_def)

section \<open>Properties of the host-callback handshake\<close>

text \<open>
  C3 fails on the code. A callback is added to a queue with one prior operation. The
  queue then holds the operation, a barrier (event 4), a barrier waiting for
  \<open>cpu_callback_complete\<close> (event 2) and a marker (event 6). The monitor signals
  \<open>cpu_callback_complete\<close> before it waits for \<open>gpu_ack\<close> and deletes the record, as
  claimed; but the events it waits for, the members \<open>gpu_ready\<close> (event 1) and
  \<open>gpu_ack\<close> (event 3), belong to no command submitted to the queue. The wait before
  the host callback is not a wait for the device to reach the callback's point in the
  stream (that is event 4, which nothing waits for).
\<close>

theorem callback_waits_on_unsubmitted_events:
  "enqueued queue_with_callback
     = [(Operation ''memCopyAsync'', 0), (Barrier None, 4), (Barrier (Some [2]), 5), (Marker, 6)]
   \<and> monitor (callback_stack queue_with_callback)
     = [Wait 1, Execute 7, HostSignal 2, Wait 3, Delete]
   \<and> events_of_queue queue_with_callback = {0, 4, 5, 6}
   \<and> 1 \<notin> events_of_queue queue_with_callback
   \<and> 3 \<notin> events_of_queue queue_with_callback"
  by (simp add: queue_with_callback_def addCallback_def CHIPCallbackData_setup_def
        createCHIPEvent_def enqueueBarrier_def enqueueMarker_def submit_def
        monitor_body_def events_of_queue_def queue_with_one_operation_def Let_def
        eval_nat_numeral)

end
